theory Spec2Isabelle
  imports Complex_Main "HOL-Library.Word"
begin

unbundle bit_operations_syntax

section \<open>Bit codec\<close>

text \<open>
  Go's \<^verbatim>\<open>byte\<close> is an unsigned 8-bit integer and \<^verbatim>\<open>uint32\<close> an unsigned 32-bit one;
  both are words, so that shifts, masks and conversions wrap as they do in Go.  A bit
  sequence is a \<^verbatim>\<open>[]byte\<close> in the source (one byte per bit), and so it is here.
\<close>

type_synonym byte = "8 word"
type_synonym uint32 = "32 word"

text \<open>
  \<^verbatim>\<open>bytesToBits\<close> fills \<^verbatim>\<open>bits[i*8+j] = (b >> (7 - j)) & 1\<close> for every byte \<open>b\<close> at
  index \<open>i\<close> and every \<open>j\<close> from 0 to 7: the rows of eight bits, one after the other.
\<close>

definition bytesToBits :: "byte list \<Rightarrow> byte list" where
  "bytesToBits data = concat (map (\<lambda>b. map (\<lambda>j. drop_bit (7 - j) b AND 1) [0..<8]) data)"

text \<open>
  \<^verbatim>\<open>bitsToBytes\<close> allocates \<^verbatim>\<open>(len(bits)+7)/8\<close> zero bytes and runs over the bits with
  their indices; a bit equal to 1 sets \<^verbatim>\<open>bytes[i/8] |= 1 << (7 - i%8)\<close>, any other value
  leaves the array as it is.  The index \<open>i div 8\<close> is always inside the array.
\<close>

definition bitsToBytes_step :: "nat \<times> byte \<Rightarrow> byte list \<Rightarrow> byte list" where
  "bitsToBytes_step = (\<lambda>(i, b) bytes.
     if b = 1 then bytes[i div 8 := bytes ! (i div 8) OR push_bit (7 - i mod 8) 1] else bytes)"

definition bitsToBytes :: "byte list \<Rightarrow> byte list" where
  "bitsToBytes bits =
     fold bitsToBytes_step (zip [0..<length bits] bits) (replicate ((length bits + 7) div 8) 0)"

section \<open>Pattern generator\<close>

text \<open>
  The mask is computed with \<^verbatim>\<open>float64\<close> and \<^verbatim>\<open>complex128\<close> arithmetic.  The model does
  not fix a rounding behaviour: every operation the source applies to such numbers is a
  field of the record \<open>arith\<close>, over a type \<open>'f\<close> of floats and a type \<open>'c\<close> of complex
  numbers, and the generator takes the record as its first argument.  What is proved
  about the generator therefore holds for IEEE-754 double precision as for every other
  interpretation of the operations.  Each operator of the source is one operation of the
  record.

  \<^item> \<open>float64 n\<close> is the conversion \<^verbatim>\<open>float64(n)\<close> of an integer;
  \<^item> \<open>lit m e\<close> is the decimal literal \<open>m / 10\<^sup>e\<close> (\<^verbatim>\<open>3.5\<close> is \<open>lit 35 1\<close>);
  \<^item> \<open>fdiv\<close>, \<open>fmul\<close>, \<open>fsub\<close> are \<^verbatim>\<open>/\<close>, \<^verbatim>\<open>*\<close>, \<^verbatim>\<open>-\<close> on \<^verbatim>\<open>float64\<close>;
  \<^item> \<open>complex128 re im\<close> is \<^verbatim>\<open>complex(re, im)\<close>; \<open>cmul\<close> and \<open>cadd\<close> are \<^verbatim>\<open>*\<close> and \<^verbatim>\<open>+\<close>
    on \<^verbatim>\<open>complex128\<close>;
  \<^item> \<open>abs_gt z t\<close> is the test \<^verbatim>\<open>cmplx.Abs(z) > t\<close>.
\<close>

record ('f, 'c) arith =
  float64 :: "int \<Rightarrow> 'f"
  lit :: "int \<Rightarrow> nat \<Rightarrow> 'f"
  fdiv :: "'f \<Rightarrow> 'f \<Rightarrow> 'f"
  fmul :: "'f \<Rightarrow> 'f \<Rightarrow> 'f"
  fsub :: "'f \<Rightarrow> 'f \<Rightarrow> 'f"
  complex128 :: "'f \<Rightarrow> 'f \<Rightarrow> 'c"
  cmul :: "'c \<Rightarrow> 'c \<Rightarrow> 'c"
  cadd :: "'c \<Rightarrow> 'c \<Rightarrow> 'c"
  abs_gt :: "'c \<Rightarrow> 'f \<Rightarrow> bool"

text \<open>
  Exact rational arithmetic is one interpretation; it is the one the concrete examples
  below are run with.  \<open>abs_gt\<close> compares squares, so that no square root is needed.
\<close>

definition exact_arith :: "(rat, rat \<times> rat) arith" where
  "exact_arith = \<lparr> float64 = of_int, lit = (\<lambda>m e. of_int m / 10 ^ e),
     fdiv = (/), fmul = (*), fsub = (-),
     complex128 = Pair,
     cmul = (\<lambda>(a, b) (c, d). (a * c - b * d, a * d + b * c)),
     cadd = (\<lambda>(a, b) (c, d). (a + c, b + d)),
     abs_gt = (\<lambda>(a, b) t. t < 0 \<or> t * t < a * a + b * b) \<rparr>"

text \<open>
  \<^verbatim>\<open>FractalParams\<close> and \<^verbatim>\<open>Config\<close> of \<^verbatim>\<open>interface.go\<close>.  \<^verbatim>\<open>Type\<close> is a free-form string,
  \<^verbatim>\<open>Iterations\<close> a Go \<^verbatim>\<open>int\<close> (it may be zero or negative), and the pointer
  \<^verbatim>\<open>Config.FractalParams\<close>, which may be \<^verbatim>\<open>nil\<close>, is an option.
\<close>

record 'f FractalParams =
  Type :: string
  Iterations :: int
  Threshold :: 'f

record 'f Config =
  EmbeddingRate :: 'f
  FractalParams :: "'f FractalParams option"

text \<open>
  The escape-time loop \<^verbatim>\<open>for ; iter < params.Iterations; iter++\<close> of one pixel, from the
  current \<open>z\<close> and \<open>iter\<close>; its value is \<open>iter\<close> when the loop is left, by \<^verbatim>\<open>break\<close> or by its
  condition.
\<close>

function iterate :: "('f, 'c) arith \<Rightarrow> 'f FractalParams \<Rightarrow> 'c \<Rightarrow> 'c \<Rightarrow> int \<Rightarrow> int" where
  "iterate ar params c z iter =
     (if iter < Iterations params then
        (let z' = (if Type params = ''Julia''
                   then cadd ar (cmul ar z z) (complex128 ar (lit ar (- 8) 1) (lit ar 156 3))
                   else cadd ar (cmul ar z z) c)
         in if abs_gt ar z' (Threshold params) then iter
            else iterate ar params c z' (iter + 1))
      else iter)"
  by pat_completeness auto
termination
  by (relation "measure (\<lambda>(ar, params, c, z, iter). nat (Iterations params - iter))") auto

text \<open>The body of the two pixel loops: the value stored in \<^verbatim>\<open>pattern[y*width+x]\<close>.\<close>

definition embeddable ::
  "('f, 'c) arith \<Rightarrow> nat \<Rightarrow> nat \<Rightarrow> 'f FractalParams \<Rightarrow> nat \<Rightarrow> nat \<Rightarrow> bool" where
  "embeddable ar width height params x y =
     (let nx = fsub ar (fmul ar (fdiv ar (float64 ar (int x)) (float64 ar (int width))) (lit ar 35 1))
                 (lit ar 25 1);
          ny = fsub ar (fmul ar (fdiv ar (float64 ar (int y)) (float64 ar (int height))) (lit ar 20 1))
                 (lit ar 10 1);
          c = complex128 ar nx ny;
          z = complex128 ar (float64 ar 0) (float64 ar 0)
      in iterate ar params c z 0 = Iterations params)"

text \<open>
  \<^verbatim>\<open>generateFractalPattern\<close>: \<open>y\<close> is the outer loop and \<open>x\<close> the inner one, and entry
  \<open>y * width + x\<close> is written at \<open>(x, y)\<close>, so the slice is the concatenation of the rows.
\<close>

definition generateFractalPattern ::
  "('f, 'c) arith \<Rightarrow> nat \<Rightarrow> nat \<Rightarrow> 'f FractalParams \<Rightarrow> bool list" where
  "generateFractalPattern ar width height params =
     concat (map (\<lambda>y. map (\<lambda>x. embeddable ar width height params x y) [0..<width]) [0..<height])"

text \<open>The carrier count of the specification: the number of true entries of a mask.\<close>

definition carrierCount :: "bool list \<Rightarrow> nat" where
  "carrierCount pattern = length (filter (\<lambda>b. b) pattern)"

section \<open>Images\<close>

text \<open>
  A pixel is a \<^verbatim>\<open>color.RGBA\<close> value; its fields \<^verbatim>\<open>R\<close>, \<^verbatim>\<open>G\<close>, \<^verbatim>\<open>B\<close>, \<^verbatim>\<open>A\<close> are \<open>red\<close>,
  \<open>green\<close>, \<open>blue\<close>, \<open>alpha\<close> here.  An image is what the interface \<^verbatim>\<open>image.Image\<close> gives:
  the rectangle \<^verbatim>\<open>Bounds()\<close>, as its corner \<^verbatim>\<open>Min\<close> (\<open>MinX\<close>, \<open>MinY\<close>) and its extent
  \<^verbatim>\<open>Dx()\<close>, \<^verbatim>\<open>Dy()\<close>, and the colour \<^verbatim>\<open>At(x, y)\<close> at absolute coordinates, taken in the RGBA
  colour model.  The corner need not be \<open>(0, 0)\<close>: a sub-image keeps the coordinates of
  the image it was cut from.
\<close>

record RGBA =
  red :: byte
  green :: byte
  blue :: byte
  alpha :: byte

record image =
  MinX :: int
  MinY :: int
  Dx :: nat
  Dy :: nat
  At :: "int \<times> int \<Rightarrow> RGBA"

text \<open>\<^verbatim>\<open>(image.Point{x, y}).In(img.Bounds())\<close>: the point lies in the rectangle.\<close>

definition inRect :: "image \<Rightarrow> int \<Rightarrow> int \<Rightarrow> bool" where
  "inRect img x y \<longleftrightarrow>
     MinX img \<le> x \<and> x < MinX img + int (Dx img) \<and> MinY img \<le> y \<and> y < MinY img + int (Dy img)"

text \<open>
  \<^verbatim>\<open>image.NewRGBA(bounds)\<close> gives a transparent black image with the given rectangle;
  \<^verbatim>\<open>draw.Draw(dst, bounds, src, bounds.Min, draw.Src)\<close> copies the source, point for point,
  inside the rectangles of both.  \<^verbatim>\<open>RGBAAt\<close> and \<^verbatim>\<open>SetRGBA\<close> of \<^verbatim>\<open>*image.RGBA\<close> read and write
  the pixel at an absolute point inside the rectangle; at a point outside they give the
  zero colour and do nothing.
\<close>

definition NewRGBA :: "int \<Rightarrow> int \<Rightarrow> nat \<Rightarrow> nat \<Rightarrow> image" where
  "NewRGBA mx my w h =
     \<lparr> MinX = mx, MinY = my, Dx = w, Dy = h,
       At = (\<lambda>p. \<lparr> red = 0, green = 0, blue = 0, alpha = 0 \<rparr>) \<rparr>"

definition Draw :: "image \<Rightarrow> image \<Rightarrow> image" where
  "Draw dst src =
     dst \<lparr> At := (\<lambda>(x, y). if inRect dst x y \<and> inRect src x y
                          then At src (x, y) else At dst (x, y)) \<rparr>"

definition RGBAAt :: "image \<Rightarrow> int \<Rightarrow> int \<Rightarrow> RGBA" where
  "RGBAAt img x y =
     (if inRect img x y then At img (x, y)
      else \<lparr> red = 0, green = 0, blue = 0, alpha = 0 \<rparr>)"

definition SetRGBA :: "image \<Rightarrow> int \<Rightarrow> int \<Rightarrow> RGBA \<Rightarrow> image" where
  "SetRGBA img x y c =
     (if inRect img x y then img \<lparr> At := (At img) ((x, y) := c) \<rparr> else img)"

section \<open>Embedding and extraction\<close>

text \<open>
  The three scans of the source have one shape,
  \<^verbatim>\<open>for y := 0; y < height && cond; y++ { for x := 0; x < width && cond; x++ { body } }\<close>,
  over a state of local variables.  \<open>for_x\<close> is the inner loop from column \<open>x\<close> on,
  \<open>for_y\<close> the outer loop from row \<open>y\<close> on.

  Widths, heights, lengths and loop counters are Go \<^verbatim>\<open>int\<close>s of 64 bits that never go
  negative; they are natural numbers here, since no image or slice that fits in memory
  brings \<^verbatim>\<open>width*height\<close> or \<^verbatim>\<open>len(data)*8\<close> near \<open>2\<^sup>6\<^sup>3\<close>.  The conversions to \<^verbatim>\<open>uint32\<close>
  and the \<^verbatim>\<open>uint32\<close> product \<^verbatim>\<open>length*8\<close> do wrap at sizes that occur, and are modelled on
  32-bit words.
\<close>

function for_x :: "('s \<Rightarrow> bool) \<Rightarrow> (nat \<Rightarrow> nat \<Rightarrow> 's \<Rightarrow> 's) \<Rightarrow> nat \<Rightarrow> nat \<Rightarrow> nat \<Rightarrow> 's \<Rightarrow> 's" where
  "for_x cond body width y x s =
     (if x < width \<and> cond s then for_x cond body width y (x + 1) (body x y s) else s)"
  by pat_completeness auto
termination
  by (relation "measure (\<lambda>(cond, body, width, y, x, s). width - x)") auto

function for_y :: "('s \<Rightarrow> bool) \<Rightarrow> (nat \<Rightarrow> nat \<Rightarrow> 's \<Rightarrow> 's) \<Rightarrow> nat \<Rightarrow> nat \<Rightarrow> nat \<Rightarrow> 's \<Rightarrow> 's" where
  "for_y cond body width height y s =
     (if y < height \<and> cond s
      then for_y cond body width height (y + 1) (for_x cond body width y 0 s) else s)"
  by pat_completeness auto
termination
  by (relation "measure (\<lambda>(cond, body, width, height, y, s). height - y)") auto

text \<open>The loops are unfolded one step at a time, by hand.\<close>

declare for_x.simps [simp del] for_y.simps [simp del]

text \<open>
  The errors of the source are \<^verbatim>\<open>errors.New\<close> values, told apart by their message:
  \<open>MissingParameters\<close> is \<^verbatim>\<open>"fractal parameters are required"\<close>, \<open>CapacityExceeded\<close> is
  \<^verbatim>\<open>"image too small to embed data"\<close>, \<open>InvalidLength\<close> is
  \<^verbatim>\<open>"invalid data length extracted"\<close>.  The source has no other error.
\<close>

datatype error = MissingParameters | CapacityExceeded | InvalidLength

text \<open>\<^verbatim>\<open>binary.BigEndian.PutUint32\<close> and \<^verbatim>\<open>binary.BigEndian.Uint32\<close> on a slice of four bytes.\<close>

definition PutUint32 :: "uint32 \<Rightarrow> byte list" where
  "PutUint32 v = [ucast (drop_bit 24 v), ucast (drop_bit 16 v), ucast (drop_bit 8 v), ucast v]"

definition Uint32 :: "byte list \<Rightarrow> uint32" where
  "Uint32 b = ucast (b ! 3) OR push_bit 8 (ucast (b ! 2)) OR push_bit 16 (ucast (b ! 1))
              OR push_bit 24 (ucast (b ! 0))"

text \<open>
  The body of the embedding scan, on the state \<open>(stego, bitPos)\<close>: at a masked pixel the
  least-significant bit of blue is replaced by \<^verbatim>\<open>allBits[bitPos]\<close>.  The source calls
  \<^verbatim>\<open>stego.RGBAAt(x, y)\<close> and \<^verbatim>\<open>stego.SetRGBA(x, y, c)\<close> with the loop variables, which
  count from 0, as absolute coordinates.
\<close>

definition embed_pixel ::
  "bool list \<Rightarrow> byte list \<Rightarrow> nat \<Rightarrow> nat \<Rightarrow> nat \<Rightarrow> image \<times> nat \<Rightarrow> image \<times> nat" where
  "embed_pixel pattern allBits width x y = (\<lambda>(stego, bitPos).
     if pattern ! (y * width + x)
     then let c = RGBAAt stego (int x) (int y);
              c' = c \<lparr> blue := (blue c AND 0xFE) OR allBits ! bitPos \<rparr>
          in (SetRGBA stego (int x) (int y) c', bitPos + 1)
     else (stego, bitPos))"

definition Embed :: "('f, 'c) arith \<Rightarrow> image \<Rightarrow> byte list \<Rightarrow> 'f Config \<Rightarrow> error + image" where
  "Embed ar cover data config =
     (case FractalParams config of
        None \<Rightarrow> Inl MissingParameters
      | Some params \<Rightarrow>
          let width = Dx cover; height = Dy cover;
              requiredPixels = 32 + length data * 8
          in if width * height < requiredPixels then Inl CapacityExceeded
             else
               let stego = Draw (NewRGBA (MinX cover) (MinY cover) width height) cover;
                   pattern = generateFractalPattern ar width height params;
                   lengthBits = PutUint32 (of_nat (length data));
                   allBits = bytesToBits lengthBits @ bytesToBits data;
                   (stego', bitPos) =
                      for_y (\<lambda>(stego, bitPos). bitPos < length allBits)
                        (embed_pixel pattern allBits width) width height 0 (stego, 0)
               in Inr stego')"

text \<open>
  The body of the first scan of \<^verbatim>\<open>Extract\<close>, on the state \<open>(lengthBytes, extractedBits)\<close>,
  and of the second, on \<open>(dataBits, extractedBits, skippedTimes)\<close>; the \<^verbatim>\<open>continue\<close> of
  the second ends the body for this pixel.  The \<^verbatim>\<open>uint32\<close> variable \<^verbatim>\<open>length\<close> of the source
  is \<open>dataLength\<close> here; \<^verbatim>\<open>length*8\<close> is a \<^verbatim>\<open>uint32\<close> product and wraps.  Both scans call
  \<^verbatim>\<open>stego.At(x, y)\<close> with the loop variables as absolute coordinates.
\<close>

definition header_pixel ::
  "bool list \<Rightarrow> image \<Rightarrow> nat \<Rightarrow> nat \<Rightarrow> nat \<Rightarrow> byte list \<times> nat \<Rightarrow> byte list \<times> nat" where
  "header_pixel pattern stego width x y = (\<lambda>(lengthBytes, extractedBits).
     if pattern ! (y * width + x)
     then let c = At stego (int x, int y);
              bytePos = extractedBits div 8;
              bitPos = 7 - extractedBits mod 8
          in (lengthBytes[bytePos := lengthBytes ! bytePos OR push_bit bitPos (blue c AND 1)],
              extractedBits + 1)
     else (lengthBytes, extractedBits))"

definition data_pixel ::
  "bool list \<Rightarrow> image \<Rightarrow> nat \<Rightarrow> nat \<Rightarrow> nat \<Rightarrow> byte list \<times> nat \<times> nat \<Rightarrow> byte list \<times> nat \<times> nat" where
  "data_pixel pattern stego width x y = (\<lambda>(dataBits, extractedBits, skippedTimes).
     let pixelIndex = y * width + x
     in if skippedTimes < 32 \<and> pattern ! pixelIndex
        then (dataBits, extractedBits, skippedTimes + 1)
        else if pattern ! pixelIndex
        then (dataBits[extractedBits := blue (At stego (int x, int y)) AND 1], extractedBits + 1,
              skippedTimes)
        else (dataBits, extractedBits, skippedTimes))"

definition Extract :: "('f, 'c) arith \<Rightarrow> image \<Rightarrow> 'f Config \<Rightarrow> error + byte list" where
  "Extract ar stego config =
     (case FractalParams config of
        None \<Rightarrow> Inl MissingParameters
      | Some params \<Rightarrow>
          let width = Dx stego; height = Dy stego;
              pattern = generateFractalPattern ar width height params;
              (lengthBytes, extractedBits) =
                 for_y (\<lambda>(lengthBytes, extractedBits). extractedBits < 32)
                   (header_pixel pattern stego width) width height 0 (replicate 4 0, 0);
              dataLength = Uint32 lengthBytes
          in if dataLength = 0 \<or> dataLength > of_nat (width * height) then Inl InvalidLength
             else
               let dataBits0 = replicate (unat (dataLength * 8)) 0;
                   (dataBits, extractedBits, skippedTimes) =
                      for_y (\<lambda>(dataBits, extractedBits, skippedTimes).
                               extractedBits < length dataBits)
                        (data_pixel pattern stego width) width height 0 (dataBits0, 0, 0)
               in Inr (bitsToBytes dataBits))"

section \<open>Notions of the specification\<close>

text \<open>
  The pixel grid of the specification: \<open>pixel img (x, y)\<close> is the pixel in column \<open>x\<close> and
  row \<open>y\<close> of the image, counted from its own corner.  The scan order is all positions
  \<open>(x, y)\<close> of the grid, row after row.  The carrier positions of a mask are the positions
  whose entry \<open>y * w + x\<close> is true, in scan order; the carrier bits of an image are the
  least-significant blue bits of its pixels at those positions.
\<close>

definition pixel :: "image \<Rightarrow> nat \<times> nat \<Rightarrow> RGBA" where
  "pixel img = (\<lambda>(x, y). At img (MinX img + int x, MinY img + int y))"

definition positions :: "nat \<Rightarrow> nat \<Rightarrow> (nat \<times> nat) list" where
  "positions w h = concat (map (\<lambda>y. map (\<lambda>x. (x, y)) [0..<w]) [0..<h])"

definition carriers :: "bool list \<Rightarrow> nat \<Rightarrow> nat \<Rightarrow> (nat \<times> nat) list" where
  "carriers pattern w h = filter (\<lambda>(x, y). pattern ! (y * w + x)) (positions w h)"



text \<open>The bit stream of \<^verbatim>\<open>Embed\<close>: the 32 header bits, then the payload bits.\<close>

definition frame_bits :: "byte list \<Rightarrow> byte list" where
  "frame_bits data = bytesToBits (PutUint32 (of_nat (length data))) @ bytesToBits data"

section \<open>Auxiliary definitions for the proofs\<close>

text \<open>
  A scan whose body acts at masked pixels only is a fold over the carrier positions, of
  a step that is skipped once the loop condition fails.  The steps of the three scans
  are the masked branches of \<open>embed_pixel\<close>, \<open>header_pixel\<close> and \<open>data_pixel\<close>.
  \<open>at_loop img (x, y)\<close> is the colour the scans of \<open>Extract\<close> read when the loop variables
  are \<open>x\<close> and \<open>y\<close>, and \<open>read_bits\<close> the bits they take from it.
\<close>

definition at_loop :: "image \<Rightarrow> nat \<times> nat \<Rightarrow> RGBA" where
  "at_loop img = (\<lambda>(x, y). At img (int x, int y))"

definition read_bits :: "image \<Rightarrow> (nat \<times> nat) list \<Rightarrow> byte list" where
  "read_bits stego qs = map (\<lambda>q. blue (at_loop stego q) AND 1) qs"

definition guarded :: "('s \<Rightarrow> bool) \<Rightarrow> ('q \<Rightarrow> 's \<Rightarrow> 's) \<Rightarrow> 'q \<Rightarrow> 's \<Rightarrow> 's" where
  "guarded cond step q s = (if cond s then step q s else s)"

definition lsb_set :: "RGBA \<Rightarrow> byte \<Rightarrow> RGBA" where
  "lsb_set c b = c \<lparr> blue := (blue c AND 0xFE) OR b \<rparr>"

definition write_bits :: "image \<Rightarrow> ((nat \<times> nat) \<times> byte) list \<Rightarrow> image" where
  "write_bits stego qbs =
     fold (\<lambda>((x, y), b) st. SetRGBA st (int x) (int y) (lsb_set (RGBAAt st (int x) (int y)) b))
       qbs stego"

definition embed_step :: "byte list \<Rightarrow> nat \<times> nat \<Rightarrow> image \<times> nat \<Rightarrow> image \<times> nat" where
  "embed_step bits = (\<lambda>(x, y) (stego, bitPos).
     (SetRGBA stego (int x) (int y) (lsb_set (RGBAAt stego (int x) (int y)) (bits ! bitPos)),
      bitPos + 1))"

definition header_step :: "image \<Rightarrow> nat \<times> nat \<Rightarrow> byte list \<times> nat \<Rightarrow> byte list \<times> nat" where
  "header_step stego = (\<lambda>q (lengthBytes, extractedBits).
     (lengthBytes[extractedBits div 8 := lengthBytes ! (extractedBits div 8)
         OR push_bit (7 - extractedBits mod 8) (blue (at_loop stego q) AND 1)], extractedBits + 1))"

definition data_step ::
  "image \<Rightarrow> nat \<times> nat \<Rightarrow> byte list \<times> nat \<times> nat \<Rightarrow> byte list \<times> nat \<times> nat" where
  "data_step stego = (\<lambda>q (dataBits, extractedBits, skippedTimes).
     if skippedTimes < 32 then (dataBits, extractedBits, skippedTimes + 1)
     else (dataBits[extractedBits := blue (at_loop stego q) AND 1], extractedBits + 1, skippedTimes))"

section \<open>Example inputs\<close>

text \<open>
  One iteration of the Mandelbrot recurrence with threshold 2 gives \<open>z = c\<close>, and the
  pixel is masked when \<open>|c| \<le> 2\<close>.  On an image eight pixels wide the columns 0 and 1
  have \<open>|c| \<ge> 2.0625\<close> and every other pixel has \<open>|c|\<^sup>2 \<le> 3.65\<close>, so the mask is the same
  in exact and in double-precision arithmetic: six carrier positions in every row.
\<close>

definition example_params :: "rat FractalParams" where
  "example_params = \<lparr> Type = ''Mandelbrot'', Iterations = 1, Threshold = 2 \<rparr>"

definition example_config :: "rat Config" where
  "example_config = \<lparr> EmbeddingRate = 1 / 2, FractalParams = Some example_params \<rparr>"

definition example_cover :: "nat \<Rightarrow> nat \<Rightarrow> image" where
  "example_cover w h = \<lparr> MinX = 0, MinY = 0, Dx = w, Dy = h,
     At = (\<lambda>(x, y). \<lparr> red = of_int (31 * x + y), green = of_int (x + 7 * y),
                        blue = of_int (3 * x + 5 * y), alpha = 255 \<rparr>) \<rparr>"

text \<open>
  The same picture as a sub-image with the rectangle from \<open>(2, 2)\<close> to \<open>(10, 7)\<close>, eight
  pixels wide and five high.
\<close>

definition shifted_cover :: image where
  "shifted_cover = \<lparr> MinX = 2, MinY = 2, Dx = 8, Dy = 5,
     At = (\<lambda>(x, y). \<lparr> red = of_int (31 * x + y), green = of_int (x + 7 * y),
                        blue = of_int (3 * x + 5 * y), alpha = 255 \<rparr>) \<rparr>"

text \<open>
  Three iterations of the Julia recurrence stay far inside the threshold 2 (\<open>|z|\<close> is at
  most 0.82), so that every pixel is masked, in exact and in double-precision arithmetic.
\<close>

definition julia_params :: "rat FractalParams" where
  "julia_params = \<lparr> Type = ''Julia'', Iterations = 3, Threshold = 2 \<rparr>"

definition julia_config :: "rat Config" where
  "julia_config = \<lparr> EmbeddingRate = 1 / 2, FractalParams = Some julia_params \<rparr>"


section \<open>Properties of the bit codec\<close>

lemma length_fold_bitsToBytes_step [simp]:
  "length (fold bitsToBytes_step ps bs) = length bs"
  by (induction ps arbitrary: bs) (auto simp: bitsToBytes_step_def)

lemma bit_one_shift:
  "j < 8 \<Longrightarrow> bit (push_bit (7 - m mod 8) (1::byte)) (7 - j) \<longleftrightarrow> j = m mod 8"
proof -
  assume j: "j < 8"
  have m: "m mod 8 < 8" by simp
  have "bit (push_bit (7 - m mod 8) (1::byte)) (7 - j) \<longleftrightarrow> 7 - j = 7 - m mod 8"
    using j by (auto simp only: bit_push_bit_iff bit_1_iff possible_bit_word) auto
  also have "\<dots> \<longleftrightarrow> j = m mod 8" using j m by arith
  finally show ?thesis .
qed

lemma step_bit:
  assumes "k < length bs" "j < 8"
  shows "bit (bitsToBytes_step (m, b) bs ! k) (7 - j) \<longleftrightarrow>
         bit (bs ! k) (7 - j) \<or> (b = 1 \<and> 8 * k + j = m)"
proof (cases "b = 1")
  case False
  then show ?thesis by (simp add: bitsToBytes_step_def)
next
  case True
  have eq: "(k = m div 8 \<and> j = m mod 8) \<longleftrightarrow> 8 * k + j = m"
    using assms(2) by auto
  show ?thesis
  proof (cases "k = m div 8")
    case k: True
    have "bitsToBytes_step (m, b) bs ! k = bs ! k OR push_bit (7 - m mod 8) 1"
      using True k assms(1) by (simp add: bitsToBytes_step_def del: push_bit_of_1)
    then show ?thesis
      using eq k True assms(2) by (simp only: bit_or_iff bit_one_shift) auto
  next
    case k: False
    have "bitsToBytes_step (m, b) bs ! k = bs ! k"
      using True k by (simp add: bitsToBytes_step_def)
    then show ?thesis using eq k by auto
  qed
qed

lemma fold_step_bit:
  assumes "k < length bs" "j < 8"
  shows "bit (fold bitsToBytes_step (zip [m..<m + length bits] bits) bs ! k) (7 - j) \<longleftrightarrow>
         bit (bs ! k) (7 - j) \<or>
         (m \<le> 8 * k + j \<and> 8 * k + j < m + length bits \<and> bits ! (8 * k + j - m) = 1)"
  using assms
proof (induction bits arbitrary: m bs)
  case Nil
  then show ?case by auto
next
  case (Cons b bits)
  have z: "zip [m..<m + length (b # bits)] (b # bits) = (m, b) # zip [Suc m..<Suc m + length bits] bits"
    by (simp add: upt_conv_Cons del: upt_Suc)
  have len: "k < length (bitsToBytes_step (m, b) bs)"
    using Cons.prems by (simp add: bitsToBytes_step_def)
  have "bit (fold bitsToBytes_step (zip [m..<m + length (b # bits)] (b # bits)) bs ! k) (7 - j)
      \<longleftrightarrow> bit (fold bitsToBytes_step (zip [Suc m..<Suc m + length bits] bits) (bitsToBytes_step (m, b) bs) ! k) (7 - j)"
    unfolding z by simp
  also have "\<dots> \<longleftrightarrow> bit (bitsToBytes_step (m, b) bs ! k) (7 - j) \<or>
         (Suc m \<le> 8 * k + j \<and> 8 * k + j < Suc m + length bits \<and> bits ! (8 * k + j - Suc m) = 1)"
    by (rule Cons.IH [OF len Cons.prems(2)])
  also have "\<dots> \<longleftrightarrow> (bit (bs ! k) (7 - j) \<or> (b = 1 \<and> 8 * k + j = m)) \<or>
         (Suc m \<le> 8 * k + j \<and> 8 * k + j < Suc m + length bits \<and> bits ! (8 * k + j - Suc m) = 1)"
    by (simp only: step_bit [OF Cons.prems])
  also have "\<dots> \<longleftrightarrow> bit (bs ! k) (7 - j) \<or>
         (m \<le> 8 * k + j \<and> 8 * k + j < m + length (b # bits) \<and> (b # bits) ! (8 * k + j - m) = 1)"
    by (cases "8 * k + j = m") (auto simp: nth_Cons' Suc_diff_le)
  finally show ?case .
qed

lemma bitsToBytes_length: "length (bitsToBytes bits) = (length bits + 7) div 8"
  by (simp add: bitsToBytes_def)

lemma bitsToBytes_bit:
  assumes "k < (length bits + 7) div 8" "j < 8"
  shows "bit (bitsToBytes bits ! k) (7 - j) \<longleftrightarrow> (8 * k + j < length bits \<and> bits ! (8 * k + j) = 1)"
  using fold_step_bit [of k "replicate ((length bits + 7) div 8) 0" j 0 bits] assms
  by (simp add: bitsToBytes_def)

lemma bytesToBits_length: "length (bytesToBits d) = 8 * length d"
  by (induction d) (simp_all add: bytesToBits_def)

lemma bytesToBits_Cons: "bytesToBits (b # d) = map (\<lambda>j. drop_bit (7 - j) b AND 1) [0..<8] @ bytesToBits d"
  by (simp add: bytesToBits_def)

lemma bytesToBits_nth:
  "i < length d \<Longrightarrow> j < 8 \<Longrightarrow> bytesToBits d ! (8 * i + j) = drop_bit (7 - j) (d ! i) AND 1"
proof (induction d arbitrary: i)
  case Nil then show ?case by simp
next
  case (Cons b d)
  show ?case
  proof (cases i)
    case 0
    then show ?thesis using Cons.prems
      by (simp only: bytesToBits_Cons) (simp add: nth_append del: upt_Suc)
  next
    case (Suc i')
    then show ?thesis using Cons.prems Cons.IH [of i']
      by (simp only: bytesToBits_Cons) (simp add: nth_append del: upt_Suc)
  qed
qed

lemma low_bit_eq_1: "(drop_bit n (b::byte) AND 1 = 1) \<longleftrightarrow> bit b n"
  by (simp add: bit_word_iff_drop_bit_and)

lemma low_bit_cases: "drop_bit n (b::byte) AND 1 = (if bit b n then 1 else 0)"
  by (simp add: and_one_eq bit_iff_odd_drop_bit mod_2_eq_odd)

lemma ceil8: "(n + 7) div 8 = nat \<lceil>real n / 8\<rceil>"
  by linarith

lemma bitsToBytes_bytesToBits: "bitsToBytes (bytesToBits d) = d"
proof (rule nth_equalityI)
  show len: "length (bitsToBytes (bytesToBits d)) = length d"
    by (simp add: bitsToBytes_length bytesToBits_length)
  fix k assume "k < length (bitsToBytes (bytesToBits d))"
  then have k: "k < length d" using len by simp
  show "bitsToBytes (bytesToBits d) ! k = d ! k"
  proof (rule bit_word_eqI)
    fix m assume "m < LENGTH(8)"
    then have m: "m < 8" by simp
    define j where "j = 7 - m"
    have j: "j < 8" "m = 7 - j" using m by (auto simp: j_def)
    have kk: "k < (length (bytesToBits d) + 7) div 8"
      using k by (simp add: bytesToBits_length)
    have "bit (bitsToBytes (bytesToBits d) ! k) (7 - j) \<longleftrightarrow>
          (8 * k + j < length (bytesToBits d) \<and> bytesToBits d ! (8 * k + j) = 1)"
      by (rule bitsToBytes_bit [OF kk j(1)])
    also have "\<dots> \<longleftrightarrow> bit (d ! k) (7 - j)"
      using k j(1) by (simp add: bytesToBits_length bytesToBits_nth low_bit_eq_1)
    finally show "bit (bitsToBytes (bytesToBits d) ! k) m \<longleftrightarrow> bit (d ! k) m"
      using j(2) by simp
  qed
qed

text \<open>
  Claim C5.  Packing the expansion of a byte sequence gives the sequence back.  The
  expansion has eight entries per byte, entry \<open>8 i + j\<close> being bit \<open>7 - j\<close> of byte \<open>i\<close>
  (most significant bit first).  Packing a bit sequence gives \<open>\<lceil>n / 8\<rceil>\<close> bytes, and bit
  \<open>7 - j\<close> of byte \<open>k\<close> is set exactly when entry \<open>8 k + j\<close> exists and is 1: the bits are
  packed most significant first and the low bits of the last byte that no entry reaches are 0.
\<close>

theorem bit_codec_laws:
  "bitsToBytes (bytesToBits d) = d
   \<and> length (bytesToBits d) = 8 * length d
   \<and> (\<forall>i<length d. \<forall>j<8. bytesToBits d ! (8 * i + j) = (if bit (d ! i) (7 - j) then 1 else 0))
   \<and> length (bitsToBytes bits) = nat \<lceil>real (length bits) / 8\<rceil>
   \<and> (\<forall>k<length (bitsToBytes bits). \<forall>j<8.
        bit (bitsToBytes bits ! k) (7 - j) \<longleftrightarrow> (8 * k + j < length bits \<and> bits ! (8 * k + j) = 1))"
  using bitsToBytes_bit [of _ bits]
  by (simp add: bitsToBytes_bytesToBits bytesToBits_length bytesToBits_nth low_bit_cases
      bitsToBytes_length ceil8 [symmetric])

theorem bit_codec_laws_witness:
  "bitsToBytes (bytesToBits [0x80, 0x01, 0xA5]) = [0x80, 0x01, 0xA5]
   \<and> length (bytesToBits [0x80, 0x01, 0xA5]) = 24
   \<and> (2::nat) < length [0x80, 0x01, 0xA5 :: byte] \<and> (7::nat) < 8
   \<and> bytesToBits [0x80, 0x01, 0xA5] ! (8 * 2 + 7) = 1
   \<and> length (bitsToBytes [1, 0, 1, 0, 1, 1, 1, 1, 1, 1]) = 2
   \<and> (1::nat) < length (bitsToBytes [1, 0, 1, 0, 1, 1, 1, 1, 1, 1]) \<and> (1::nat) < 8
   \<and> bit (bitsToBytes [1, 0, 1, 0, 1, 1, 1, 1, 1, 1] ! 1) (7 - 1)
   \<and> \<not> bit (bitsToBytes [1, 0, 1, 0, 1, 1, 1, 1, 1, 1] ! 1) (7 - 2)"
proof -
  let ?d = "[0x80, 0x01, 0xA5 :: byte]"
  let ?bits = "[1, 0, 1, 0, 1, 1, 1, 1, 1, 1 :: byte]"
  note laws = bit_codec_laws [of ?d ?bits]
  have i: "(2::nat) < length ?d" and j: "(7::nat) < 8" and k: "(1::nat) < 8" by simp_all
  have len: "(1::nat) < length (bitsToBytes ?bits)" by (simp add: bitsToBytes_length)
  have a: "bitsToBytes (bytesToBits ?d) = ?d" using laws by blast
  have b: "length (bytesToBits ?d) = 24" using laws by simp
  have "bytesToBits ?d ! (8 * 2 + 7) = (if bit (?d ! 2) (7 - 7) then 1 else 0)"
    using laws i j by blast
  then have c: "bytesToBits ?d ! (8 * 2 + 7) = 1" by simp
  have e: "length (bitsToBytes ?bits) = 2" using laws by simp
  have "bit (bitsToBytes ?bits ! 1) (7 - 1) \<longleftrightarrow>
        (8 * 1 + 1 < length ?bits \<and> ?bits ! (8 * 1 + 1) = 1)"
    using laws len by (metis one_less_numeral_iff semiring_norm(76))
  then have f: "bit (bitsToBytes ?bits ! 1) (7 - 1)" by simp
  have "bit (bitsToBytes ?bits ! 1) (7 - 2) \<longleftrightarrow>
        (8 * 1 + 2 < length ?bits \<and> ?bits ! (8 * 1 + 2) = 1)"
    using laws len by (metis numeral_less_iff semiring_norm(76) semiring_norm(78))
  then have g: "\<not> bit (bitsToBytes ?bits ! 1) (7 - 2)" by simp
  show ?thesis using a b c e f g i j k len by blast
qed

section \<open>Properties of the pattern generator\<close>

lemma concat_const_rows: "concat (replicate h (replicate w b)) = replicate (w * h) b"
  by (induction h) (simp_all add: replicate_add [symmetric])

lemma pattern_const:
  assumes "\<And>x y. embeddable ar w h params x y = b"
  shows "generateFractalPattern ar w h params = replicate (w * h) b"
  by (simp add: generateFractalPattern_def assms map_replicate_const concat_const_rows)

lemma length_rows: "length (concat (map (\<lambda>y. map (f y) [0..<w]) [0..<h])) = w * h"
  by (induction h) simp_all

lemma length_generateFractalPattern: "length (generateFractalPattern ar w h params) = w * h"
  by (simp add: generateFractalPattern_def length_rows)

lemma iterate_zero: "Iterations params = 0 \<Longrightarrow> iterate ar params c z 0 = 0"
  by simp

lemma iterate_not_Julia:
  "Type params \<noteq> ''Julia'' \<Longrightarrow>
   iterate ar (params\<lparr>Type := ''Mandelbrot''\<rparr>) c z iter = iterate ar params c z iter"
proof (induction ar params c z iter rule: iterate.induct)
  case (1 ar params c z iter)
  show ?case
  proof (cases "iter < Iterations params")
    case False
    then show ?thesis by simp
  next
    case True
    let ?z = "cadd ar (cmul ar z z) c"
    show ?thesis
    proof (cases "abs_gt ar ?z (Threshold params)")
      case True
      with \<open>iter < Iterations params\<close> "1.prems" show ?thesis
        by (subst (1 2) iterate.simps) simp
    next
      case False
      have "iterate ar (params\<lparr>Type := ''Mandelbrot''\<rparr>) c ?z (iter + 1) = iterate ar params c ?z (iter + 1)"
        using "1.IH" [of ?z] True False "1.prems" by simp
      with True False "1.prems" show ?thesis
        by (subst (1 2) iterate.simps) simp
    qed
  qed
qed

lemma iterate_Julia:
  "Type params = ''Julia'' \<Longrightarrow> iterate ar params c z iter = iterate ar params c' z iter"
proof (induction ar params c z iter rule: iterate.induct)
  case (1 ar params c z iter)
  show ?case
  proof (cases "iter < Iterations params")
    case False
    then show ?thesis by simp
  next
    case True
    let ?z = "cadd ar (cmul ar z z) (complex128 ar (lit ar (- 8) 1) (lit ar 156 3))"
    show ?thesis
    proof (cases "abs_gt ar ?z (Threshold params)")
      case True
      with \<open>iter < Iterations params\<close> "1.prems" show ?thesis
        by (subst (1 2) iterate.simps) simp
    next
      case False
      have "iterate ar params c ?z (iter + 1) = iterate ar params c' ?z (iter + 1)"
        using "1.IH" [of ?z] True False "1.prems" by simp
      with True False "1.prems" show ?thesis
        by (subst (1 2) iterate.simps) simp
    qed
  qed
qed


text \<open>
  Claim C7.  With \<open>Iterations = 0\<close> the mask has \<open>w * h\<close> entries and every entry is true,
  whatever the variant, the threshold and the arithmetic: the loop body never runs and
  the iteration count 0 equals the target 0.
\<close>

theorem zero_iterations_all_true:
  "generateFractalPattern ar w h \<lparr>Type = ty, Iterations = 0, Threshold = t\<rparr> =
   replicate (w * h) True"
  by (rule pattern_const) (simp add: embeddable_def)

text \<open>
  Claim C9.  A variant string other than \<^verbatim>\<open>"Julia"\<close> gives the mask of \<^verbatim>\<open>"Mandelbrot"\<close>:
  the source compares the string with \<^verbatim>\<open>"Julia"\<close> only.
\<close>

theorem unrecognized_variant_is_Mandelbrot:
  "ty \<noteq> ''Julia'' \<Longrightarrow>
   generateFractalPattern ar w h \<lparr>Type = ty, Iterations = n, Threshold = t\<rparr> =
   generateFractalPattern ar w h \<lparr>Type = ''Mandelbrot'', Iterations = n, Threshold = t\<rparr>"
  using iterate_not_Julia [of "\<lparr>Type = ty, Iterations = n, Threshold = t\<rparr>" ar]
  by (simp add: generateFractalPattern_def embeddable_def)

theorem unrecognized_variant_is_Mandelbrot_witness:
  "''Sierpinski'' \<noteq> ''Julia''
   \<and> generateFractalPattern exact_arith 8 5 \<lparr>Type = ''Sierpinski'', Iterations = 3, Threshold = 2\<rparr> =
     generateFractalPattern exact_arith 8 5 \<lparr>Type = ''Mandelbrot'', Iterations = 3, Threshold = 2\<rparr>"
proof -
  have ne: "''Sierpinski'' \<noteq> ''Julia''" by simp
  from ne unrecognized_variant_is_Mandelbrot [OF ne, of exact_arith 8 5 3 2]
  show ?thesis by (rule conjI)
qed

text \<open>
  Claim C10.  The Julia recurrence starts from \<open>z = 0\<close> and adds a fixed constant, so the
  pixel's coordinate is never used: any two entries of a Julia mask are equal, and the
  mask is all true or all false.
\<close>

theorem Julia_mask_constant:
  assumes "Type params = ''Julia''"
  shows "(\<forall>p<w * h. \<forall>q<w * h.
            generateFractalPattern ar w h params ! p = generateFractalPattern ar w h params ! q)
         \<and> (generateFractalPattern ar w h params = replicate (w * h) True
            \<or> generateFractalPattern ar w h params = replicate (w * h) False)"
proof -
  define b where "b = embeddable ar w h params 0 0"
  have "embeddable ar w h params x y = b" for x y
    unfolding b_def embeddable_def Let_def
    by (subst iterate_Julia [OF assms]) (rule refl)
  then have "generateFractalPattern ar w h params = replicate (w * h) b"
    by (rule pattern_const)
  then show ?thesis by (cases b) simp_all
qed

theorem Julia_mask_constant_witness:
  "Type \<lparr>Type = ''Julia'', Iterations = 3, Threshold = 2 :: rat\<rparr> = ''Julia''
   \<and> (0::nat) < 8 * 5 \<and> (39::nat) < 8 * 5
   \<and> generateFractalPattern exact_arith 8 5 \<lparr>Type = ''Julia'', Iterations = 3, Threshold = 2\<rparr> ! 0 =
     generateFractalPattern exact_arith 8 5 \<lparr>Type = ''Julia'', Iterations = 3, Threshold = 2\<rparr> ! 39"
proof -
  let ?params = "\<lparr>Type = ''Julia'', Iterations = 3, Threshold = 2 :: rat\<rparr>"
  have ty: "Type ?params = ''Julia''" by simp
  have p: "(0::nat) < 8 * 5" and q: "(39::nat) < 8 * 5" by simp_all
  from Julia_mask_constant [OF ty, of 8 5 exact_arith] p q
  have "generateFractalPattern exact_arith 8 5 ?params ! 0 =
        generateFractalPattern exact_arith 8 5 ?params ! 39"
    by blast
  with ty p q show ?thesis by blast
qed

section \<open>The scans as folds over the carrier positions\<close>

lemma guarded_True: "cond s \<Longrightarrow> guarded cond step q s = step q s"
  by (simp add: guarded_def)

lemma guarded_False: "\<not> cond s \<Longrightarrow> guarded cond step q s = s"
  by (simp add: guarded_def)

lemma fold_guarded_stuck: "\<not> cond s \<Longrightarrow> fold (guarded cond step) qs s = s"
  by (induction qs) (simp_all add: guarded_False)

lemma for_x_fold:
  "for_x cond body w y x s = fold (guarded cond (\<lambda>(x, y). body x y)) (map (\<lambda>x. (x, y)) [x..<w]) s"
proof (induction cond body w y x s rule: for_x.induct)
  case (1 cond body width y x s)
  show ?case
  proof (cases "x < width \<and> cond s")
    case True
    then have "[x..<width] = x # [x + 1..<width]" by (simp add: upt_conv_Cons)
    with True "1.IH" show ?thesis
      by (subst for_x.simps) (simp add: guarded_True)
  next
    case False
    then show ?thesis
      by (subst for_x.simps) (auto simp: fold_guarded_stuck)
  qed
qed

lemma for_y_fold:
  "for_y cond body w h y s =
     fold (guarded cond (\<lambda>(x, y). body x y)) (concat (map (\<lambda>y. map (\<lambda>x. (x, y)) [0..<w]) [y..<h])) s"
proof (induction cond body w h y s rule: for_y.induct)
  case (1 cond body width height y s)
  show ?case
  proof (cases "y < height \<and> cond s")
    case True
    then have "[y..<height] = y # [y + 1..<height]" by (simp add: upt_conv_Cons)
    with True "1.IH" show ?thesis
      by (subst for_y.simps) (simp add: for_x_fold)
  next
    case False
    then show ?thesis
      by (subst for_y.simps) (auto simp: fold_guarded_stuck)
  qed
qed

lemma fold_filter_guard:
  "fold (\<lambda>q s. if P q then f q s else s) qs s = fold f (filter P qs) s"
  by (induction qs arbitrary: s) simp_all

lemma scan_carriers:
  assumes "\<And>x y s. body x y s = (if pattern ! (y * w + x) then step (x, y) s else s)"
  shows "for_y cond body w h 0 s = fold (guarded cond step) (carriers pattern w h) s"
proof -
  have "guarded cond (\<lambda>(x, y). body x y) = (\<lambda>q s. if (\<lambda>(x, y). pattern ! (y * w + x)) q then guarded cond step q s else s)"
    by (auto simp: guarded_def assms fun_eq_iff)
  then show ?thesis
    by (simp add: for_y_fold carriers_def positions_def fold_filter_guard)
qed

lemma set_positions: "set (positions w h) = {(x, y). x < w \<and> y < h}"
  by (auto simp: positions_def)

lemma positions_Suc: "positions w (Suc h) = positions w h @ map (\<lambda>x. (x, h)) [0..<w]"
  by (simp add: positions_def)

lemma distinct_positions: "distinct (positions w h)"
proof (induction h)
  case 0 then show ?case by (simp add: positions_def)
next
  case (Suc h)
  have "distinct (map (\<lambda>x. (x, h)) [0..<w])" by (simp add: distinct_map inj_on_def)
  moreover have "set (positions w h) \<inter> set (map (\<lambda>x. (x, h)) [0..<w]) = {}"
    by (auto simp: set_positions)
  ultimately show ?case using Suc by (simp add: positions_Suc)
qed

lemma map_positions_take:
  "w * h \<le> length p \<Longrightarrow> map (\<lambda>(x, y). p ! (y * w + x)) (positions w h) = take (w * h) p"
proof (induction h)
  case 0 then show ?case by (simp add: positions_def)
next
  case (Suc h)
  have row: "map (\<lambda>x. p ! (h * w + x)) [0..<w] = take w (drop (w * h) p)"
    using Suc.prems by (intro nth_equalityI) (auto simp: mult.commute)
  have "take (w * h + w) p = take (w * h) p @ take w (drop (w * h) p)"
    by (rule take_add)
  then have "take (w * Suc h) p = take (w * h) p @ take w (drop (w * h) p)"
    by (simp add: add.commute)
  with Suc row show ?case by (simp add: positions_Suc comp_def)
qed

lemma length_carriers:
  assumes "length p = w * h"
  shows "length (carriers p w h) = carrierCount p"
proof -
  have "map (\<lambda>(x, y). p ! (y * w + x)) (positions w h) = p"
    using map_positions_take [of w h p] assms by simp
  then have "carrierCount p = length (filter (\<lambda>b. b) (map (\<lambda>(x, y). p ! (y * w + x)) (positions w h)))"
    by (simp add: carrierCount_def)
  also have "\<dots> = length (carriers p w h)"
    by (simp add: carriers_def filter_map comp_def)
  finally show ?thesis by simp
qed

lemma distinct_carriers: "distinct (carriers p w h)"
  by (simp add: carriers_def distinct_positions)

lemma set_carriers: "set (carriers p w h) = {(x, y). x < w \<and> y < h \<and> p ! (y * w + x)}"
  by (auto simp: carriers_def set_positions)

lemma embed_pixel_carrier:
  "embed_pixel pattern allBits w x y s =
     (if pattern ! (y * w + x) then embed_step allBits (x, y) s else s)"
  by (cases s) (simp add: embed_pixel_def embed_step_def Let_def lsb_set_def)

lemma embed_fold:
  "k \<le> length bits \<Longrightarrow>
   fold (guarded (\<lambda>(stego, bitPos). bitPos < length bits) (embed_step bits)) qs (st, k) =
   (write_bits st (zip qs (drop k bits)), min (length bits) (k + length qs))"
proof (induction qs arbitrary: st k)
  case Nil
  then show ?case by (simp add: write_bits_def)
next
  case (Cons q qs)
  obtain x y where q: "q = (x, y)" by (cases q)
  show ?case
  proof (cases "k < length bits")
    case True
    then have d: "drop k bits = bits ! k # drop (Suc k) bits"
      by (simp add: Cons_nth_drop_Suc)
    from True have "Suc k \<le> length bits" by simp
    from Cons.IH [OF this] True show ?thesis
      by (simp add: guarded_True q d write_bits_def embed_step_def)
  next
    case False
    with Cons.prems have k: "k = length bits" by simp
    have "fold (guarded (\<lambda>(stego, bitPos). bitPos < length bits) (embed_step bits)) (q # qs) (st, k)
          = (st, k)"
      by (rule fold_guarded_stuck) (use False in simp)
    with k show ?thesis
      by (simp add: write_bits_def)
  qed
qed

lemma Embed_result:
  assumes "FractalParams config = Some params"
    and "32 + 8 * length data \<le> Dx cover * Dy cover"
  shows "Embed ar cover data config =
         Inr (write_bits (Draw (NewRGBA (MinX cover) (MinY cover) (Dx cover) (Dy cover)) cover)
               (zip (carriers (generateFractalPattern ar (Dx cover) (Dy cover) params) (Dx cover) (Dy cover))
                    (frame_bits data)))"
proof -
  let ?p = "generateFractalPattern ar (Dx cover) (Dy cover) params"
  let ?bits = "frame_bits data"
  have "for_y (\<lambda>(stego, bitPos). bitPos < length ?bits) (embed_pixel ?p ?bits (Dx cover))
          (Dx cover) (Dy cover) 0 (Draw (NewRGBA (MinX cover) (MinY cover) (Dx cover) (Dy cover)) cover, 0)
        = (write_bits (Draw (NewRGBA (MinX cover) (MinY cover) (Dx cover) (Dy cover)) cover) (zip (carriers ?p (Dx cover) (Dy cover)) ?bits),
           min (length ?bits) (length (carriers ?p (Dx cover) (Dy cover))))"
    by (subst scan_carriers [OF embed_pixel_carrier]) (simp add: embed_fold)
  then show ?thesis
    using assms by (simp add: Embed_def Let_def frame_bits_def mult.commute)
qed

lemma Embed_capacity:
  assumes "FractalParams config = Some params"
  shows "Embed ar cover data config = Inl CapacityExceeded \<longleftrightarrow> Dx cover * Dy cover < 32 + 8 * length data"
  using assms by (auto simp: Embed_def Let_def mult.commute split: prod.splits)






section \<open>Properties of embedding and extraction\<close>

text \<open>
  Claim C8.  Without fractal parameters both operations fail with \<open>MissingParameters\<close>,
  for every image and payload: the result is the error alone, with no image and no
  bytes, and it does not depend on any pixel.
\<close>

theorem missing_parameters:
  "Embed ar cover data \<lparr>EmbeddingRate = r, FractalParams = None\<rparr> = Inl MissingParameters
   \<and> Extract ar stego \<lparr>EmbeddingRate = r, FractalParams = None\<rparr> = Inl MissingParameters"
  by (simp add: Embed_def Extract_def)

subsection \<open>The pixels written by the embedding\<close>

lemma bit_FE: "bit (0xFE :: byte) m \<longleftrightarrow> 0 < m \<and> m < 8"
proof (cases "m < 8")
  case True
  then have "m = 0 \<or> m = 1 \<or> m = 2 \<or> m = 3 \<or> m = 4 \<or> m = 5 \<or> m = 6 \<or> m = 7" by arith
  then show ?thesis by (elim disjE) simp_all
next
  case False
  then show ?thesis by (auto dest: bit_imp_le_length)
qed

lemma upper_bits_kept:
  assumes "b = 0 \<or> b = 1"
  shows "drop_bit 1 (((c::byte) AND 0xFE) OR b) = drop_bit 1 c"
proof (rule bit_word_eqI)
  fix n assume "n < LENGTH(8)"
  have "\<not> bit b (Suc n)" using assms by (auto simp: bit_1_iff)
  moreover have "bit c (Suc n) \<Longrightarrow> Suc n < 8" by (auto dest: bit_imp_le_length)
  moreover have d: "bit (drop_bit 1 x) n = bit x (Suc n)" for x :: byte
    by (simp add: bit_drop_bit_eq)
  ultimately show "bit (drop_bit 1 ((c AND 0xFE) OR b)) n \<longleftrightarrow> bit (drop_bit 1 c) n"
    unfolding d by (auto simp only: bit_and_iff bit_or_iff bit_FE)
qed

lemma low_bit_written:
  assumes "b = 0 \<or> b = 1"
  shows "(((c::byte) AND 0xFE) OR b) AND 1 = b"
  using assms by (auto simp: and.assoc)

lemma SetRGBA_simps [simp]:
  "MinX (SetRGBA st x y c) = MinX st" "MinY (SetRGBA st x y c) = MinY st"
  "Dx (SetRGBA st x y c) = Dx st" "Dy (SetRGBA st x y c) = Dy st"
  "At (SetRGBA st x y c) p = (if inRect st x y \<and> p = (x, y) then c else At st p)"
  by (simp_all add: SetRGBA_def)

lemma inRect_SetRGBA [simp]: "inRect (SetRGBA st x y c) = inRect st"
  by (simp add: inRect_def fun_eq_iff)

lemma write_bits_Cons:
  "write_bits st (((x, y), b) # qbs) =
   write_bits (SetRGBA st (int x) (int y) (lsb_set (RGBAAt st (int x) (int y)) b)) qbs"
  by (simp add: write_bits_def)

lemma write_bits_dims [simp]:
  "MinX (write_bits st qbs) = MinX st" "MinY (write_bits st qbs) = MinY st"
  "Dx (write_bits st qbs) = Dx st" "Dy (write_bits st qbs) = Dy st"
  by (induction qbs arbitrary: st; simp add: write_bits_def split: prod.splits)+

lemma At_write_bits:
  assumes "distinct (map fst qbs)"
    and "\<forall>(x, y)\<in>fst ` set qbs. inRect st (int x) (int y)"
  shows "At (write_bits st qbs) (int x, int y) =
         (case map_of qbs (x, y) of None \<Rightarrow> At st (int x, int y)
          | Some b \<Rightarrow> lsb_set (At st (int x, int y)) b)"
  using assms
proof (induction qbs arbitrary: st)
  case Nil
  then show ?case by (simp add: write_bits_def)
next
  case (Cons qb qbs)
  obtain x' y' b where qb: "qb = ((x', y'), b)" by (cases qb) auto
  let ?st = "SetRGBA st (int x') (int y') (lsb_set (RGBAAt st (int x') (int y')) b)"
  from Cons.prems have inb: "inRect st (int x') (int y')" by (auto simp: qb)
  from Cons.prems have d: "distinct (map fst qbs)" and notin: "(x', y') \<notin> fst ` set qbs"
    by (auto simp: qb)
  from Cons.prems have b': "\<forall>(x, y)\<in>fst ` set qbs. inRect ?st (int x) (int y)"
    by auto
  have IH: "At (write_bits ?st qbs) (int x, int y) =
            (case map_of qbs (x, y) of None \<Rightarrow> At ?st (int x, int y)
             | Some b \<Rightarrow> lsb_set (At ?st (int x, int y)) b)"
    by (rule Cons.IH [OF d b'])
  have unfold: "At (write_bits st (qb # qbs)) (int x, int y) = At (write_bits ?st qbs) (int x, int y)"
    by (simp only: qb write_bits_Cons)
  show ?case
  proof (cases "(x, y) = (x', y')")
    case True
    with notin have none: "map_of qbs (x, y) = None" by (simp add: map_of_eq_None_iff)
    have m: "map_of (qb # qbs) (x, y) = Some b" using True by (simp add: qb)
    have a: "At ?st (int x, int y) = lsb_set (At st (int x, int y)) b"
      using True inb by (simp add: RGBAAt_def)
    have "At (write_bits ?st qbs) (int x, int y) = At ?st (int x, int y)"
      using IH none by simp
    then have "At (write_bits ?st qbs) (int x, int y) = lsb_set (At st (int x, int y)) b"
      by (simp only: a)
    then show ?thesis
      by (simp only: unfold m option.case)
  next
    case False
    then have "(int x, int y) \<noteq> (int x', int y')" by simp
    then have same: "At ?st (int x, int y) = At st (int x, int y)" by auto
    have m: "map_of (qb # qbs) (x, y) = map_of qbs (x, y)" using False by (auto simp: qb)
    show ?thesis
      by (simp only: unfold m IH same)
  qed
qed

lemma bytesToBits_values: "b \<in> set (bytesToBits d) \<Longrightarrow> b = 0 \<or> b = 1"
  by (auto simp: bytesToBits_def low_bit_cases simp del: upt_Suc)

lemma frame_bits_values: "b \<in> set (frame_bits data) \<Longrightarrow> b = 0 \<or> b = 1"
  by (auto simp: frame_bits_def dest: bytesToBits_values)

lemma length_frame_bits: "length (frame_bits data) = 32 + 8 * length data"
  by (simp add: frame_bits_def bytesToBits_length PutUint32_def)

lemma Draw_NewRGBA [simp]:
  "MinX (Draw (NewRGBA mx my w h) cover) = mx" "MinY (Draw (NewRGBA mx my w h) cover) = my"
  "Dx (Draw (NewRGBA mx my w h) cover) = w" "Dy (Draw (NewRGBA mx my w h) cover) = h"
  by (simp_all add: Draw_def NewRGBA_def)

lemma At_Draw_NewRGBA:
  "inRect cover x y \<Longrightarrow>
   At (Draw (NewRGBA (MinX cover) (MinY cover) (Dx cover) (Dy cover)) cover) (x, y) = At cover (x, y)"
  by (simp add: Draw_def NewRGBA_def inRect_def)

lemma inRect_origin:
  "MinX img = 0 \<Longrightarrow> MinY img = 0 \<Longrightarrow> inRect img (int x) (int y) \<longleftrightarrow> x < Dx img \<and> y < Dy img"
  by (simp add: inRect_def)



lemma take_min_length: "take (min (length xs) n) xs = take n xs"
  by (cases "n \<le> length xs") (simp_all add: min_def)

lemma map_fst_zip: "map fst (zip xs ys) = take (length ys) xs"
  by (simp add: map_fst_zip_take take_min_length)

lemma keys_zip: "fst ` set (zip qs (frame_bits data)) = set (take (32 + 8 * length data) qs)"
proof -
  have "fst ` set (zip qs (frame_bits data)) = set (map fst (zip qs (frame_bits data)))" by simp
  also have "\<dots> = set (take (length (frame_bits data)) qs)" by (simp only: map_fst_zip)
  finally show ?thesis by (simp add: length_frame_bits)
qed

lemma carriers_in_bounds:
  assumes "MinX st = 0" "MinY st = 0" "Dx st = w" "Dy st = h"
  shows "\<forall>(x, y)\<in>fst ` set (zip (carriers p w h) bits). inRect st (int x) (int y)"
  using assms by (auto simp: set_carriers inRect_origin dest!: set_zip_leftD)

lemma Embed_Inr_capacity:
  assumes "FractalParams config = Some params" "Embed ar cover data config = Inr stego"
  shows "32 + 8 * length data \<le> Dx cover * Dy cover"
proof (rule ccontr)
  assume "\<not> ?thesis"
  then have "Dx cover * Dy cover < 32 + 8 * length data" by simp
  with Embed_capacity [OF assms(1), of ar cover data] assms(2) show False by simp
qed

subsection \<open>The scans of the extraction\<close>

lemma header_pixel_carrier:
  "header_pixel pattern stego w x y s =
     (if pattern ! (y * w + x) then header_step stego (x, y) s else s)"
  by (cases s) (simp add: header_pixel_def header_step_def at_loop_def Let_def)

lemma data_pixel_carrier:
  "data_pixel pattern stego w x y s =
     (if pattern ! (y * w + x) then data_step stego (x, y) s else s)"
  by (cases s) (auto simp add: data_pixel_def data_step_def at_loop_def Let_def)

lemma and_1_cases: "(c::byte) AND 1 = 0 \<or> c AND 1 = 1"
  by (simp add: and_one_eq mod_2_eq_odd)

lemma div8: "m < 8 \<Longrightarrow> (8 * k + m) div 8 = (k::nat)"
  by simp

lemma mod8: "m < 8 \<Longrightarrow> (8 * k + m) mod 8 = (m::nat)"
  by simp

lemma shifted_div: "n < 8 \<Longrightarrow> (8 * k + (7 - n)) div 8 = (k::nat)"
  by (rule div8) arith

lemma shifted_mod: "n < 8 \<Longrightarrow> 7 - (8 * k + (7 - n)) mod 8 = (n::nat)"
proof -
  assume n: "n < 8"
  then have "7 - n < 8" by arith
  then have "(8 * k + (7 - n)) mod 8 = 7 - n" by (rule mod8)
  then show ?thesis using n by arith
qed

lemma shifted_index: "8 * (eb div 8) + (7 - (7 - eb mod 8)) = (eb::nat)"
proof -
  have "eb mod 8 < 8" by simp
  then have "7 - (7 - eb mod 8) = eb mod 8" by arith
  then show ?thesis by (simp only: mult_div_mod_eq)
qed

lemma or_shifted_bit:
  assumes "n < 8" and "b = 0 \<or> b = 1"
  shows "lb[k := lb ! k OR push_bit n b] = bitsToBytes_step (8 * k + (7 - n), b) lb"
proof (cases "b = 1")
  case True
  then show ?thesis
    unfolding bitsToBytes_step_def prod.case shifted_div [OF assms(1)] shifted_mod [OF assms(1)]
    by simp
next
  case False
  with assms(2) have "b = 0" by simp
  then show ?thesis
    unfolding bitsToBytes_step_def prod.case by simp
qed

lemma header_step_eq:
  "header_step stego q (lb, eb) = (bitsToBytes_step (eb, blue (at_loop stego q) AND 1) lb, eb + 1)"
proof -
  define b where "b = blue (at_loop stego q) AND 1"
  have b: "b = 0 \<or> b = 1" unfolding b_def by (rule and_1_cases)
  have n: "7 - eb mod 8 < 8" by simp
  have "header_step stego q (lb, eb) =
        (lb[eb div 8 := lb ! (eb div 8) OR push_bit (7 - eb mod 8) b], eb + 1)"
    unfolding header_step_def b_def prod.case ..
  also have "\<dots> = (bitsToBytes_step (eb, b) lb, eb + 1)"
    unfolding or_shifted_bit [OF n b] shifted_index ..
  finally show ?thesis unfolding b_def .
qed

lemma header_fold:
  "eb \<le> 32 \<Longrightarrow>
   fold (guarded (\<lambda>(lengthBytes, extractedBits). extractedBits < 32) (header_step stego)) qs (lb, eb) =
   (fold bitsToBytes_step (zip [eb..<32] (read_bits stego qs)) lb, min 32 (eb + length qs))"
proof (induction qs arbitrary: lb eb)
  case Nil
  then show ?case by (simp add: read_bits_def)
next
  case (Cons q qs)
  show ?case
  proof (cases "eb < 32")
    case True
    then have u: "[eb..<32] = eb # [Suc eb..<32]" by (simp add: upt_conv_Cons)
    from True have "Suc eb \<le> 32" by simp
    from Cons.IH [OF this] True show ?thesis
      by (simp add: guarded_True header_step_eq u read_bits_def)
  next
    case False
    with Cons.prems have eb: "eb = 32" by simp
    have "fold (guarded (\<lambda>(lengthBytes, extractedBits). extractedBits < 32) (header_step stego)) (q # qs) (lb, eb)
          = (lb, eb)"
      by (rule fold_guarded_stuck) (use False in simp)
    with eb show ?thesis by simp
  qed
qed

lemma data_fold_skip:
  "0 < length db \<Longrightarrow> sk + length qs \<le> 32 \<Longrightarrow>
   fold (guarded (\<lambda>(dataBits, extractedBits, skippedTimes). extractedBits < length dataBits)
          (data_step stego)) qs (db, 0, sk) = (db, 0, sk + length qs)"
proof (induction qs arbitrary: sk)
  case Nil
  then show ?case by simp
next
  case (Cons q qs)
  from Cons.prems have "sk < 32" "Suc sk + length qs \<le> 32" by simp_all
  with Cons.IH [of "Suc sk"] Cons.prems(1) show ?case
    by (simp add: guarded_True data_step_def)
qed

lemma data_fold_read:
  "eb \<le> length db \<Longrightarrow>
   fold (guarded (\<lambda>(dataBits, extractedBits, skippedTimes). extractedBits < length dataBits)
          (data_step stego)) qs (db, eb, 32) =
   (take eb db @ take (length db - eb) (read_bits stego qs) @ drop (eb + length qs) db,
    min (length db) (eb + length qs), 32)"
proof (induction qs arbitrary: db eb)
  case Nil
  then show ?case by (simp add: read_bits_def)
next
  case (Cons q qs)
  let ?b = "blue (at_loop stego q) AND 1"
  show ?case
  proof (cases "eb < length db")
    case True
    then have le: "Suc eb \<le> length (db[eb := ?b])" by simp
    have t: "take (Suc eb) (db[eb := ?b]) = take eb db @ [?b]"
      using True by (simp add: take_Suc_conv_app_nth)
    have c: "take (length db - eb) (?b # read_bits stego qs) =
             ?b # take (length db - Suc eb) (read_bits stego qs)"
      using True by (simp add: take_Cons')
    from Cons.IH [OF le] True t c show ?thesis
      by (simp add: guarded_True data_step_def read_bits_def)
  next
    case False
    with Cons.prems have eb: "eb = length db" by simp
    have "fold (guarded (\<lambda>(dataBits, extractedBits, skippedTimes). extractedBits < length dataBits)
            (data_step stego)) (q # qs) (db, eb, 32) = (db, eb, 32)"
      by (rule fold_guarded_stuck) (use False in simp)
    with eb show ?thesis by simp
  qed
qed

lemma bit_Uint32:
  "bit (Uint32 [b0, b1, b2, b3]) n \<longleftrightarrow>
     (n < 8 \<and> bit b3 n) \<or> (8 \<le> n \<and> n < 16 \<and> bit b2 (n - 8)) \<or>
     (16 \<le> n \<and> n < 24 \<and> bit b1 (n - 16)) \<or> (24 \<le> n \<and> n < 32 \<and> bit b0 (n - 24))"
proof -
  have u: "bit (ucast (b::byte) :: uint32) m \<longleftrightarrow> m < 8 \<and> bit b m" for b m
    by (auto simp add: bit_ucast_iff dest: bit_imp_le_length)
  have p: "bit (push_bit k (ucast (b::byte) :: uint32)) n \<longleftrightarrow> k \<le> n \<and> n < 32 \<and> n - k < 8 \<and> bit b (n - k)" for b k
    unfolding bit_push_bit_iff u by auto
  have "bit (Uint32 [b0, b1, b2, b3]) n \<longleftrightarrow>
     (n < 8 \<and> bit b3 n) \<or> (8 \<le> n \<and> n < 32 \<and> n - 8 < 8 \<and> bit b2 (n - 8)) \<or>
     (16 \<le> n \<and> n < 32 \<and> n - 16 < 8 \<and> bit b1 (n - 16)) \<or> (24 \<le> n \<and> n < 32 \<and> n - 24 < 8 \<and> bit b0 (n - 24))"
    unfolding Uint32_def bit_or_iff p u by simp
  also have "\<dots> \<longleftrightarrow> (n < 8 \<and> bit b3 n) \<or> (8 \<le> n \<and> n < 16 \<and> bit b2 (n - 8)) \<or>
     (16 \<le> n \<and> n < 24 \<and> bit b1 (n - 16)) \<or> (24 \<le> n \<and> n < 32 \<and> bit b0 (n - 24))"
    by (cases "n < 8"; cases "n < 16"; cases "n < 24"; cases "n < 32") auto
  finally show ?thesis .
qed

lemma bit_PutUint32:
  "bit (PutUint32 v ! 3) n \<longleftrightarrow> n < 8 \<and> bit v n"
  "bit (PutUint32 v ! 2) n \<longleftrightarrow> n < 8 \<and> bit v (8 + n)"
  "bit (PutUint32 v ! 1) n \<longleftrightarrow> n < 8 \<and> bit v (16 + n)"
  "bit (PutUint32 v ! 0) n \<longleftrightarrow> n < 8 \<and> bit v (24 + n)"
proof -
  have u: "bit (ucast (x::uint32) :: byte) m \<longleftrightarrow> m < 8 \<and> bit x m" for x m
    by (auto simp add: bit_ucast_iff)
  show "bit (PutUint32 v ! 3) n \<longleftrightarrow> n < 8 \<and> bit v n"
    "bit (PutUint32 v ! 2) n \<longleftrightarrow> n < 8 \<and> bit v (8 + n)"
    "bit (PutUint32 v ! 1) n \<longleftrightarrow> n < 8 \<and> bit v (16 + n)"
    "bit (PutUint32 v ! 0) n \<longleftrightarrow> n < 8 \<and> bit v (24 + n)"
    by (simp_all add: PutUint32_def u bit_drop_bit_eq)
qed

lemma four_bytes: "length bs = 4 \<Longrightarrow> bs = [bs ! 0, bs ! 1, bs ! 2, bs ! 3]"
  by (cases bs; simp; cases "tl bs"; simp; cases "tl (tl bs)"; simp; cases "tl (tl (tl bs))"; simp)

lemma length_PutUint32 [simp]: "length (PutUint32 v) = 4"
  by (simp add: PutUint32_def)

lemma Uint32_PutUint32: "Uint32 (PutUint32 v) = v"
proof (rule bit_word_eqI)
  fix n assume "n < LENGTH(32)"
  then have n: "n < 32" by simp
  have p: "PutUint32 v = [PutUint32 v ! 0, PutUint32 v ! 1, PutUint32 v ! 2, PutUint32 v ! 3]"
    by (rule four_bytes) simp
  have "bit (Uint32 (PutUint32 v)) n \<longleftrightarrow>
     (n < 8 \<and> bit (PutUint32 v ! 3) n) \<or> (8 \<le> n \<and> n < 16 \<and> bit (PutUint32 v ! 2) (n - 8)) \<or>
     (16 \<le> n \<and> n < 24 \<and> bit (PutUint32 v ! 1) (n - 16)) \<or> (24 \<le> n \<and> n < 32 \<and> bit (PutUint32 v ! 0) (n - 24))"
    by (subst p) (rule bit_Uint32)
  also have "\<dots> \<longleftrightarrow> bit v n"
    unfolding bit_PutUint32 using n
    by (cases "n < 8"; cases "n < 16"; cases "n < 24") auto
  finally show "bit (Uint32 (PutUint32 v)) n \<longleftrightarrow> bit v n" .
qed

lemma data_loop:
  "fst (fold (guarded (\<lambda>(dataBits, extractedBits, skippedTimes). extractedBits < length dataBits)
          (data_step stego)) qs (replicate n 0, 0, 0)) =
   take n (drop 32 (read_bits stego qs)) @ replicate (n - (length qs - 32)) 0"
proof (cases "n = 0")
  case True
  have "fold (guarded (\<lambda>(dataBits, extractedBits, skippedTimes). extractedBits < length dataBits)
          (data_step stego)) qs (replicate n 0, 0, 0) = (replicate n 0, 0, 0)"
    by (rule fold_guarded_stuck) (use True in simp)
  with True show ?thesis by simp
next
  case False
  let ?G = "guarded (\<lambda>(dataBits, extractedBits, skippedTimes). extractedBits < length dataBits)
          (data_step stego)"
  let ?db = "replicate n (0::byte)"
  have pos: "0 < length ?db" using False by simp
  have skip: "fold ?G (take 32 qs) (?db, 0, 0) = (?db, 0, 0 + length (take 32 qs))"
    by (rule data_fold_skip [OF pos]) simp
  have split: "fold ?G qs (?db, 0, 0) = fold ?G (drop 32 qs) (fold ?G (take 32 qs) (?db, 0, 0))"
    by (metis append_take_drop_id fold_append comp_apply)
  show ?thesis
  proof (cases "32 \<le> length qs")
    case True
    then have "fold ?G qs (?db, 0, 0) = fold ?G (drop 32 qs) (?db, 0, 32)"
      using split skip by (simp add: min_def)
    also have "\<dots> = (take 0 ?db @ take (length ?db - 0) (read_bits stego (drop 32 qs))
                      @ drop (0 + length (drop 32 qs)) ?db, min (length ?db) (0 + length (drop 32 qs)), 32)"
      by (rule data_fold_read) simp
    finally show ?thesis
      by (simp add: read_bits_def drop_map)
  next
    case False
    then have "fold ?G qs (?db, 0, 0) = (?db, 0, length qs)"
      using split skip by (simp add: min_def)
    with False show ?thesis by (simp add: read_bits_def)
  qed
qed

lemma Extract_result:
  assumes "FractalParams config = Some params"
  shows "Extract ar stego config =
     (let qs = carriers (generateFractalPattern ar (Dx stego) (Dy stego) params) (Dx stego) (Dy stego);
          cb = read_bits stego qs;
          dataLength = Uint32 (fold bitsToBytes_step (zip [0..<32] cb) (replicate 4 0));
          n = unat (dataLength * 8)
      in if dataLength = 0 \<or> dataLength > of_nat (Dx stego * Dy stego) then Inl InvalidLength
         else Inr (bitsToBytes (take n (drop 32 cb) @ replicate (n - (length qs - 32)) 0)))"
proof -
  let ?w = "Dx stego" and ?h = "Dy stego"
  let ?p = "generateFractalPattern ar ?w ?h params"
  let ?qs = "carriers ?p ?w ?h"
  have hdr: "for_y (\<lambda>(lengthBytes, extractedBits). extractedBits < 32)
               (header_pixel ?p stego ?w) ?w ?h 0 (replicate 4 0, 0) =
             (fold bitsToBytes_step (zip [0..<32] (read_bits stego ?qs)) (replicate 4 0),
              min 32 (0 + length ?qs))"
    by (subst scan_carriers [OF header_pixel_carrier]) (rule header_fold, simp)
  have dat: "for_y (\<lambda>(dataBits, extractedBits, skippedTimes). extractedBits < length dataBits)
               (data_pixel ?p stego ?w) ?w ?h 0 (replicate n 0, 0, 0) =
             fold (guarded (\<lambda>(dataBits, extractedBits, skippedTimes). extractedBits < length dataBits)
               (data_step stego)) ?qs (replicate n 0, 0, 0)" for n
    by (rule scan_carriers [OF data_pixel_carrier])
  show ?thesis
    using assms data_loop [of stego ?qs]
    by (simp add: Extract_def Let_def hdr dat split_beta)
qed

lemma map_of_zip_at:
  "distinct xs \<Longrightarrow> k < length xs \<Longrightarrow> k < length ys \<Longrightarrow> map_of (zip xs ys) (xs ! k) = Some (ys ! k)"
proof (induction xs arbitrary: ys k)
  case Nil
  then show ?case by simp
next
  case (Cons x xs)
  then obtain y ys' where ys: "ys = y # ys'" by (cases ys) auto
  show ?case
  proof (cases k)
    case 0
    then show ?thesis by (simp add: ys)
  next
    case (Suc k')
    with Cons.prems have "xs ! k' \<noteq> x" by auto
    with Cons.IH [of k' ys'] Cons.prems Suc show ?thesis by (simp add: ys)
  qed
qed

lemma zip_upt_take: "zip [0..<n] bs = zip [0..<n] (take n bs)"
proof -
  have "zip [0..<n] bs = take n (zip [0..<n] bs)" by simp
  also have "\<dots> = zip [0..<n] (take n bs)" by (simp add: take_zip)
  finally show ?thesis .
qed

lemma read_bits_written:
  assumes "distinct qs" and "\<forall>(x, y)\<in>set qs. inRect st (int x) (int y)"
    and "length bits \<le> length qs" and "\<forall>b\<in>set bits. b = 0 \<or> b = 1"
  shows "take (length bits) (read_bits (write_bits st (zip qs bits)) qs) = bits"
proof (rule nth_equalityI)
  show "length (take (length bits) (read_bits (write_bits st (zip qs bits)) qs)) = length bits"
    using assms(3) by (simp add: read_bits_def)
  fix k assume "k < length (take (length bits) (read_bits (write_bits st (zip qs bits)) qs))"
  then have k: "k < length bits" "k < length qs" by (simp_all add: read_bits_def)
  obtain x y where q: "qs ! k = (x, y)" by (cases "qs ! k")
  have dist: "distinct (map fst (zip qs bits))"
    using assms(1) by (simp add: map_fst_zip)
  have inb: "\<forall>(x, y)\<in>fst ` set (zip qs bits). inRect st (int x) (int y)"
    using assms(2) by (auto dest!: set_zip_leftD)
  have b: "bits ! k = 0 \<or> bits ! k = 1" using assms(4) k(1) by simp
  have m: "map_of (zip qs bits) (x, y) = Some (bits ! k)"
    using map_of_zip_at [OF assms(1) k(2) k(1)] by (simp add: q)
  have "At (write_bits st (zip qs bits)) (int x, int y) = lsb_set (At st (int x, int y)) (bits ! k)"
    unfolding At_write_bits [OF dist inb] m by simp
  then have "blue (at_loop (write_bits st (zip qs bits)) (qs ! k)) AND 1 = bits ! k"
    using low_bit_written [OF b] by (simp add: lsb_set_def at_loop_def q)
  then show "take (length bits) (read_bits (write_bits st (zip qs bits)) qs) ! k = bits ! k"
    using k by (simp add: read_bits_def)
qed

lemma carrierCount_le: "carrierCount p \<le> length p"
  by (simp add: carrierCount_def)

lemma header_bytes_of_frame:
  assumes "take 32 cb = bytesToBits (PutUint32 v)"
  shows "fold bitsToBytes_step (zip [0..<32] cb) (replicate 4 0) = PutUint32 v"
proof -
  have len: "length (bytesToBits (PutUint32 v)) = 32" by (simp add: bytesToBits_length)
  have "fold bitsToBytes_step (zip [0..<32] cb) (replicate 4 0) =
        fold bitsToBytes_step (zip [0..<32] (bytesToBits (PutUint32 v))) (replicate 4 0)"
    by (subst zip_upt_take) (simp only: assms)
  also have "\<dots> = bitsToBytes (bytesToBits (PutUint32 v))"
    by (simp add: bitsToBytes_def len)
  finally show ?thesis by (simp add: bitsToBytes_bytesToBits)
qed




lemma length_header_bytes [simp]:
  "length (fold bitsToBytes_step (zip [0..<32] cb) (replicate 4 0)) = 4"
  by simp



lemma Embed_then_header:
  assumes params: "FractalParams config = Some params"
    and origin: "MinX cover = 0" "MinY cover = 0"
    and fit: "32 + 8 * length data \<le> carrierCount (generateFractalPattern ar (Dx cover) (Dy cover) params)"
  shows "\<exists>stego. Embed ar cover data config = Inr stego
     \<and> MinX stego = 0 \<and> MinY stego = 0 \<and> Dx stego = Dx cover \<and> Dy stego = Dy cover
     \<and> take (32 + 8 * length data) (read_bits stego
          (carriers (generateFractalPattern ar (Dx cover) (Dy cover) params) (Dx cover) (Dy cover)))
        = frame_bits data"
proof -
  let ?w = "Dx cover" and ?h = "Dy cover"
  let ?p = "generateFractalPattern ar ?w ?h params"
  let ?qs = "carriers ?p ?w ?h"
  let ?bits = "frame_bits data"
  let ?st = "Draw (NewRGBA (MinX cover) (MinY cover) ?w ?h) cover"
  let ?stego = "write_bits ?st (zip ?qs ?bits)"
  have lenp: "length ?p = ?w * ?h" by (rule length_generateFractalPattern)
  have lenqs: "length ?qs = carrierCount ?p" by (rule length_carriers [OF lenp])
  have L: "length ?bits = 32 + 8 * length data" by (rule length_frame_bits)
  have enough: "length ?bits \<le> length ?qs" using fit lenqs L by simp
  have cap: "32 + 8 * length data \<le> ?w * ?h"
    using fit carrierCount_le [of ?p] lenp by simp
  have emb: "Embed ar cover data config = Inr ?stego"
    by (rule Embed_result [OF params cap])
  have inb: "\<forall>(x, y)\<in>set ?qs. inRect ?st (int x) (int y)"
    using origin by (simp add: set_carriers inRect_origin)
  have vals: "\<forall>b\<in>set ?bits. b = 0 \<or> b = 1"
    using frame_bits_values by blast
  have "take (length ?bits) (read_bits ?stego ?qs) = ?bits"
    by (rule read_bits_written [OF distinct_carriers inb enough vals])
  then have "take (32 + 8 * length data) (read_bits ?stego ?qs) = ?bits"
    by (simp only: L)
  moreover have "MinX ?stego = 0" "MinY ?stego = 0" "Dx ?stego = ?w" "Dy ?stego = ?h"
    using origin by simp_all
  ultimately show ?thesis using emb by blast
qed

lemma header_of_frame:
  assumes "take (32 + n) cb = frame_bits data"
  shows "Uint32 (fold bitsToBytes_step (zip [0..<32] cb) (replicate 4 0)) = of_nat (length data)"
proof -
  have "take 32 cb = take 32 (take (32 + n) cb)" by simp
  also have "\<dots> = bytesToBits (PutUint32 (of_nat (length data)))"
    unfolding assms by (simp add: frame_bits_def bytesToBits_length)
  finally have "fold bitsToBytes_step (zip [0..<32] cb) (replicate 4 0) = PutUint32 (of_nat (length data))"
    by (rule header_bytes_of_frame)
  then show ?thesis by (simp only: Uint32_PutUint32)
qed



subsection \<open>Channel isolation\<close>

text \<open>
  On a cover whose rectangle starts at \<open>(0, 0)\<close> the loop variables are the positions of
  the pixel grid.  When \<open>Embed\<close> succeeds on such a cover the output has the extent of the
  cover, at every pixel the red, green and alpha channels and the upper seven bits of
  blue are those of the cover, and a pixel whose blue channel differs from the cover's
  is one of the first \<open>32 + 8 * length data\<close> carrier positions in scan order.
\<close>

lemma isolation_at_origin:
  assumes "FractalParams config = Some params"
    and origin: "MinX cover = 0" "MinY cover = 0"
    and "Embed ar cover data config = Inr stego"
  shows "Dx stego = Dx cover \<and> Dy stego = Dy cover
     \<and> (\<forall>x<Dx cover. \<forall>y<Dy cover.
          red (pixel stego (x, y)) = red (pixel cover (x, y))
        \<and> green (pixel stego (x, y)) = green (pixel cover (x, y))
        \<and> alpha (pixel stego (x, y)) = alpha (pixel cover (x, y))
        \<and> drop_bit 1 (blue (pixel stego (x, y))) = drop_bit 1 (blue (pixel cover (x, y)))
        \<and> (blue (pixel stego (x, y)) \<noteq> blue (pixel cover (x, y)) \<longrightarrow>
             (x, y) \<in> set (take (32 + 8 * length data)
                (carriers (generateFractalPattern ar (Dx cover) (Dy cover) params) (Dx cover) (Dy cover)))))"
proof -
  let ?w = "Dx cover" and ?h = "Dy cover"
  let ?qs = "carriers (generateFractalPattern ar ?w ?h params) ?w ?h"
  let ?qbs = "zip ?qs (frame_bits data)"
  let ?st = "Draw (NewRGBA (MinX cover) (MinY cover) ?w ?h) cover"
  have cap: "32 + 8 * length data \<le> ?w * ?h"
    by (rule Embed_Inr_capacity [OF assms(1) assms(4)])
  have stego: "stego = write_bits ?st ?qbs"
    using Embed_result [OF assms(1) cap, of ar] assms(4) by simp
  have o: "MinX stego = 0" "MinY stego = 0" using origin by (simp_all add: stego)
  have dist: "distinct (map fst ?qbs)"
    by (simp add: map_fst_zip distinct_carriers)
  have inb: "\<forall>(x, y)\<in>fst ` set ?qbs. inRect ?st (int x) (int y)"
    by (rule carriers_in_bounds) (use origin in simp_all)
  have pix: "red (pixel stego (x, y)) = red (pixel cover (x, y))
        \<and> green (pixel stego (x, y)) = green (pixel cover (x, y))
        \<and> alpha (pixel stego (x, y)) = alpha (pixel cover (x, y))
        \<and> drop_bit 1 (blue (pixel stego (x, y))) = drop_bit 1 (blue (pixel cover (x, y)))
        \<and> (blue (pixel stego (x, y)) \<noteq> blue (pixel cover (x, y)) \<longrightarrow>
             (x, y) \<in> set (take (32 + 8 * length data) ?qs))"
    if xy: "x < ?w" "y < ?h" for x y
  proof -
    have r: "inRect cover (int x) (int y)"
      using xy origin by (simp add: inRect_origin)
    have ps: "pixel stego (x, y) = At stego (int x, int y)"
      using o by (simp add: pixel_def)
    have pc: "pixel cover (x, y) = At cover (int x, int y)"
      using origin by (simp add: pixel_def)
    have st: "At ?st (int x, int y) = At cover (int x, int y)"
      by (rule At_Draw_NewRGBA [OF r])
    show ?thesis
    proof (cases "map_of ?qbs (x, y)")
      case None
      have "At stego (int x, int y) = At ?st (int x, int y)"
        unfolding stego At_write_bits [OF dist inb] None by simp
      then show ?thesis by (simp add: ps pc st)
    next
      case (Some b)
      then have mem: "((x, y), b) \<in> set ?qbs" by (rule map_of_SomeD)
      then have "b \<in> set (frame_bits data)" by (rule set_zip_rightD)
      then have b: "b = 0 \<or> b = 1" by (rule frame_bits_values)
      from mem have "(x, y) \<in> fst ` set ?qbs" by force
      then have consumed: "(x, y) \<in> set (take (32 + 8 * length data) ?qs)"
        by (simp only: keys_zip)
      have "At stego (int x, int y) = lsb_set (At ?st (int x, int y)) b"
        unfolding stego At_write_bits [OF dist inb] Some by simp
      then have "At stego (int x, int y) = lsb_set (At cover (int x, int y)) b"
        by (simp only: st)
      with consumed upper_bits_kept [OF b] show ?thesis
        by (simp add: ps pc lsb_set_def)
    qed
  qed
  have "Dx stego = ?w" "Dy stego = ?h" by (simp_all add: stego)
  with pix show ?thesis by blast
qed

text \<open>
  Claim C4 at a failing input.  The cover is a sub-image with the rectangle from \<open>(2, 2)\<close>
  to \<open>(10, 7)\<close>; with the example parameters the mask of its 8 by 5 grid is false in the
  columns 0 and 1.  \<open>Embed\<close> succeeds.  Its scan reaches the loop variables \<open>(3, 2)\<close>, whose
  mask entry is true, and writes a header bit, 0, at the absolute point \<open>(3, 2)\<close>.  That
  point is the pixel in column 1 and row 0 of the cover, whose own mask entry is false:
  the blue channel of a pixel that is no carrier position goes from 19 to 18.
\<close>

theorem subimage_write_misses_carriers:
  "\<not> isl (Embed exact_arith shifted_cover [0xA5] example_config)
   \<and> (1, 0) \<notin> set (carriers (generateFractalPattern exact_arith (Dx shifted_cover) (Dy shifted_cover)
         example_params) (Dx shifted_cover) (Dy shifted_cover))
   \<and> blue (pixel shifted_cover (1, 0)) = 19
   \<and> blue (pixel (projr (Embed exact_arith shifted_cover [0xA5] example_config)) (1, 0)) = 18"
  by code_simp

subsection \<open>Round trip\<close>

text \<open>
  Claim C1, as the code has it.  For a cover whose rectangle starts at \<open>(0, 0)\<close> and a
  payload that is not empty, whose bits fit the carrier count of the mask, and whose
  length survives the \<^verbatim>\<open>uint32\<close> arithmetic of \<open>Extract\<close> (\<open>8 * length data < 2\<^sup>3\<^sup>2\<close>, and
  \<open>length data\<close> at most \<^verbatim>\<open>uint32(width*height)\<close>; both hold on every image of fewer than
  \<open>2\<^sup>3\<^sup>2\<close> pixels), \<open>Embed\<close> succeeds and \<open>Extract\<close> with the same configuration returns the
  payload.
\<close>

theorem round_trip:
  assumes params: "FractalParams config = Some params"
    and origin: "MinX cover = 0" "MinY cover = 0"
    and fit: "32 + 8 * length data \<le> carrierCount (generateFractalPattern ar (Dx cover) (Dy cover) params)"
    and nonempty: "data \<noteq> []"
    and small: "8 * length data < 2 ^ 32"
    and plausible: "length data \<le> (Dx cover * Dy cover) mod 2 ^ 32"
  shows "\<exists>stego. Embed ar cover data config = Inr stego \<and> Extract ar stego config = Inr data"
proof -
  let ?w = "Dx cover" and ?h = "Dy cover"
  let ?p = "generateFractalPattern ar ?w ?h params"
  let ?qs = "carriers ?p ?w ?h"
  let ?n = "8 * length data"
  let ?v = "of_nat (length data) :: uint32"
  from Embed_then_header [OF params origin fit] obtain stego where
    emb: "Embed ar cover data config = Inr stego" and dims: "Dx stego = ?w" "Dy stego = ?h"
    and written: "take (32 + ?n) (read_bits stego ?qs) = frame_bits data"
    by blast
  let ?cb = "read_bits stego ?qs"
  have enough: "32 + ?n \<le> length ?qs"
    using fit length_carriers [OF length_generateFractalPattern, of ar ?w ?h params] by simp
  have "take ?n (drop 32 ?cb) = drop 32 (take (32 + ?n) ?cb)"
    by (simp add: drop_take)
  also have "\<dots> = bytesToBits data"
    unfolding written by (simp add: frame_bits_def bytesToBits_length)
  finally have dat: "take ?n (drop 32 ?cb) = bytesToBits data" .
  have lt: "length data < 2 ^ 32"
    using small by simp
  have uv: "unat ?v = length data"
    using lt by (simp add: unat_of_nat)
  have v0: "?v \<noteq> 0"
    using nonempty uv by (metis length_0_conv unat_0)
  have "unat (of_nat (?w * ?h) :: uint32) = (?w * ?h) mod 2 ^ 32"
    by (simp only: unat_of_nat) simp
  then have vle: "\<not> ?v > of_nat (?w * ?h)"
    using uv plausible by (simp add: word_less_nat_alt del: of_nat_mult)
  have "unat (?v * 8) = unat ?v * unat (8 :: uint32)"
    using small uv by (subst unat_mult_lem [symmetric]) simp
  then have n: "unat (?v * 8) = ?n" using uv by simp
  have pad: "?n - (length ?qs - 32) = 0" using enough by simp
  have "Extract ar stego config = Inr data"
    unfolding Extract_result [OF params] dims Let_def header_of_frame [OF written]
    by (simp add: v0 vle n dat pad bitsToBytes_bytesToBits del: of_nat_mult)
  with emb show ?thesis by blast
qed

theorem round_trip_witness:
  "FractalParams example_config = Some example_params
   \<and> MinX (example_cover 8 7) = 0 \<and> MinY (example_cover 8 7) = 0
   \<and> 32 + 8 * length [0xA5 :: byte] \<le> carrierCount (generateFractalPattern exact_arith
         (Dx (example_cover 8 7)) (Dy (example_cover 8 7)) example_params)
   \<and> [0xA5 :: byte] \<noteq> []
   \<and> 8 * length [0xA5 :: byte] < 2 ^ 32
   \<and> length [0xA5 :: byte] \<le> (Dx (example_cover 8 7) * Dy (example_cover 8 7)) mod 2 ^ 32
   \<and> Extract exact_arith (projr (Embed exact_arith (example_cover 8 7) [0xA5] example_config))
         example_config = Inr [0xA5]"
proof -
  let ?cover = "example_cover 8 7"
  have p: "FractalParams example_config = Some example_params"
    by (simp add: example_config_def)
  have o: "MinX ?cover = 0" "MinY ?cover = 0"
    by (simp_all add: example_cover_def)
  have fit: "32 + 8 * length [0xA5 :: byte] \<le> carrierCount (generateFractalPattern exact_arith
         (Dx ?cover) (Dy ?cover) example_params)"
    by code_simp
  have ne: "[0xA5 :: byte] \<noteq> []" by simp
  have small: "8 * length [0xA5 :: byte] < 2 ^ 32" by simp
  have pl: "length [0xA5 :: byte] \<le> (Dx ?cover * Dy ?cover) mod 2 ^ 32"
    by (simp add: example_cover_def)
  from round_trip [OF p o fit ne small pl]
  obtain stego where "Embed exact_arith ?cover [0xA5] example_config = Inr stego"
    and "Extract exact_arith stego example_config = Inr [0xA5]"
    by blast
  then have "Extract exact_arith (projr (Embed exact_arith ?cover [0xA5] example_config))
         example_config = Inr [0xA5]"
    by simp
  with p o fit ne small pl show ?thesis by blast
qed

text \<open>
  The claim as stated includes the empty payload.  Its 32 header bits fit the 42 carrier
  positions of the example mask and \<open>Embed\<close> succeeds, but \<open>Extract\<close> reads the length 0
  and fails with \<open>InvalidLength\<close>, by its guard \<^verbatim>\<open>length == 0\<close>.
\<close>

theorem round_trip_empty_payload_counterexample:
  "32 + 8 * length ([] :: byte list) \<le> carrierCount (generateFractalPattern exact_arith
         (Dx (example_cover 8 7)) (Dy (example_cover 8 7)) example_params)
   \<and> \<not> isl (Embed exact_arith (example_cover 8 7) [] example_config)
   \<and> Extract exact_arith (projr (Embed exact_arith (example_cover 8 7) [] example_config))
         example_config = Inl InvalidLength"
  by code_simp

text \<open>
  The bounds on the length are needed as well: on a cover of exactly \<open>2\<^sup>3\<^sup>2\<close> pixels, such
  as one of 65536 by 65536, \<^verbatim>\<open>uint32(width*height)\<close> is 0 and \<open>Extract\<close> rejects every
  payload that \<open>Embed\<close> has written.
\<close>

lemma uint32_pixel_count_wraps:
  assumes params: "FractalParams config = Some params"
    and origin: "MinX cover = 0" "MinY cover = 0"
    and fit: "32 + 8 * length data \<le> carrierCount (generateFractalPattern ar (Dx cover) (Dy cover) params)"
    and pixels: "Dx cover * Dy cover = 2 ^ 32"
  shows "\<exists>stego. Embed ar cover data config = Inr stego \<and> Extract ar stego config = Inl InvalidLength"
proof -
  from Embed_then_header [OF params origin fit] obtain stego where
    emb: "Embed ar cover data config = Inr stego" and dims: "Dx stego = Dx cover" "Dy stego = Dy cover"
    and cb: "take (32 + 8 * length data) (read_bits stego
          (carriers (generateFractalPattern ar (Dx cover) (Dy cover) params) (Dx cover) (Dy cover)))
        = frame_bits data"
    by blast
  have zero: "(of_nat (Dx cover * Dy cover) :: uint32) = 0"
    unfolding pixels by simp
  have "Extract ar stego config = Inl InvalidLength"
    unfolding Extract_result [OF params] dims Let_def header_of_frame [OF cb] zero
    by (simp add: word_gt_0)
  with emb show ?thesis by blast
qed

text \<open>
  So is the corner of the rectangle.  On the sub-image from \<open>(2, 2)\<close> to \<open>(10, 7)\<close>, with a
  mask that is true everywhere, the 40 bits of a one-byte payload fit the 40 carrier
  positions and \<open>Embed\<close> succeeds; the writes at loop variables below \<open>(2, 2)\<close> fall outside
  the rectangle and are dropped, and \<open>Extract\<close> returns the byte \<open>0x25\<close> for the payload
  \<open>0xA5\<close>, without an error.
\<close>

lemma subimage_payload_corrupted:
  "32 + 8 * length [0xA5 :: byte] \<le> carrierCount (generateFractalPattern exact_arith
         (Dx shifted_cover) (Dy shifted_cover) julia_params)
   \<and> \<not> isl (Embed exact_arith shifted_cover [0xA5] julia_config)
   \<and> Extract exact_arith (projr (Embed exact_arith shifted_cover [0xA5] julia_config))
         julia_config = Inr [0x25]"
  by code_simp

subsection \<open>The length check of the extraction\<close>




subsection \<open>Capacity\<close>

text \<open>
  Claim C2 at a failing input.  On an 8 by 5 cover the example mask has 30 carrier
  positions and a payload of one byte needs 40; the source compares the 40 with the 40
  pixels of the image, so \<open>Embed\<close> does not fail with \<open>CapacityExceeded\<close> but returns an
  image, which holds the first 30 bits of the stream only.
\<close>

theorem capacity_check_counts_all_pixels:
  "carrierCount (generateFractalPattern exact_arith (Dx (example_cover 8 5)) (Dy (example_cover 8 5))
      example_params) = 30
   \<and> 32 + 8 * length [0xA5 :: byte] = 40
   \<and> \<not> isl (Embed exact_arith (example_cover 8 5) [0xA5] example_config)"
  by code_simp

text \<open>
  Claim C3 at a failing input.  On an 8 by 7 cover the example mask has 42 carrier
  positions.  \<open>Embed\<close> accepts a payload of two bytes (48 bits against 56 pixels) and
  writes the header and the first 10 payload bits.  On that image \<open>Extract\<close> decodes the
  length 2, runs out of carrier positions after 10 of the 16 payload bits, and returns
  two bytes, the last six bits zero, instead of failing.
\<close>

theorem truncated_extraction_returns_bytes:
  "carrierCount (generateFractalPattern exact_arith (Dx (example_cover 8 7)) (Dy (example_cover 8 7))
      example_params) = 42
   \<and> \<not> isl (Embed exact_arith (example_cover 8 7) [0xFF, 0xFF] example_config)
   \<and> Extract exact_arith (projr (Embed exact_arith (example_cover 8 7) [0xFF, 0xFF] example_config))
        example_config = Inr [0xFF, 0xC0]"
  by code_simp

end
